theory Spec2Isabelle
  imports Complex_Main "HOL-Library.Word" "HOL-Library.Sublist"
begin

unbundle bit_operations_syntax

section \<open>JavaScript strings\<close>

text \<open>
  A JavaScript string is a sequence of 16-bit code units. All string functions of the
  sources (\<open>split\<close>, \<open>join\<close>, \<open>indexOf\<close>, \<open>trim\<close>, the regular expressions) work on
  code units, so a string is a list of 16-bit words. \<open>js\<close> embeds an ASCII literal.
\<close>

type_synonym jschar = "16 word"
type_synonym jsstring = "jschar list"

definition js :: "string \<Rightarrow> jsstring" where
  "js s = map of_char s"

definition LF :: jschar where "LF = 0x0A"
definition CR :: jschar where "CR = 0x0D"
definition BOM :: jschar where "BOM = 0xFEFF"

text \<open>The class \<open>\s\<close> of a JavaScript regular expression; \<open>trim\<close> strips the same set.\<close>

definition isSpace :: "jschar \<Rightarrow> bool" where
  "isSpace c = (c \<in> set [0x09, 0x0A, 0x0B, 0x0C, 0x0D, 0x20, 0xA0, 0x1680,
     0x2000, 0x2001, 0x2002, 0x2003, 0x2004, 0x2005, 0x2006, 0x2007, 0x2008, 0x2009, 0x200A,
     0x2028, 0x2029, 0x202F, 0x205F, 0x3000, 0xFEFF])"

definition isDigit :: "jschar \<Rightarrow> bool" where
  "isDigit c = (0x30 \<le> c \<and> c \<le> 0x39)"

definition isAlnum :: "jschar \<Rightarrow> bool" where
  "isAlnum c = (isDigit c \<or> (0x41 \<le> c \<and> c \<le> 0x5A) \<or> (0x61 \<le> c \<and> c \<le> 0x7A))"

text \<open>Line terminators: the characters that \<open>.\<close> does not match.\<close>

definition isLineTerminator :: "jschar \<Rightarrow> bool" where
  "isLineTerminator c = (c \<in> set [0x0A, 0x0D, 0x2028, 0x2029])"

definition trimStart :: "jsstring \<Rightarrow> jsstring" where
  "trimStart s = dropWhile isSpace s"

definition trimEnd :: "jsstring \<Rightarrow> jsstring" where
  "trimEnd s = rev (dropWhile isSpace (rev s))"

definition trim :: "jsstring \<Rightarrow> jsstring" where
  "trim s = trimEnd (trimStart s)"

text \<open>\<open>s.split("\n")\<close>: never empty; the pieces contain no line feed.\<close>

primrec splitLF :: "jsstring \<Rightarrow> jsstring list" where
  "splitLF [] = [[]]"
| "splitLF (c # cs) =
     (if c = LF then [] # splitLF cs else (c # hd (splitLF cs)) # tl (splitLF cs))"

text \<open>\<open>xs.join(sep)\<close>.\<close>

fun joinWith :: "jsstring \<Rightarrow> jsstring list \<Rightarrow> jsstring" where
  "joinWith sep [] = []"
| "joinWith sep [x] = x"
| "joinWith sep (x # y # ys) = x @ sep @ joinWith sep (y # ys)"

definition joinLF :: "jsstring list \<Rightarrow> jsstring" where
  "joinLF xs = joinWith [LF] xs"

text \<open>
  \<open>s.indexOf(t)\<close> and \<open>s.indexOf(t, from)\<close>: the first position at or after \<open>from\<close> where
  \<open>t\<close> starts; \<open>None\<close> stands for \<open>-1\<close>.
\<close>

primrec findAt :: "jsstring \<Rightarrow> jsstring \<Rightarrow> nat \<Rightarrow> nat option" where
  "findAt t [] i = (if t = [] then Some i else None)"
| "findAt t (c # cs) i = (if prefix t (c # cs) then Some i else findAt t cs (Suc i))"

definition indexOf :: "jsstring \<Rightarrow> jsstring \<Rightarrow> nat option" where
  "indexOf s t = findAt t s 0"

definition indexOfFrom :: "jsstring \<Rightarrow> jsstring \<Rightarrow> nat \<Rightarrow> nat option" where
  "indexOfFrom s t from = findAt t (drop from s) (min from (length s))"

text \<open>
  \<open>s.split(sep)\<close> for a separator string: the pieces between the occurrences of \<open>sep\<close>,
  found from left to right without overlap. The empty separator splits into code units.
\<close>

function splitOn :: "jsstring \<Rightarrow> jsstring \<Rightarrow> jsstring \<Rightarrow> jsstring list" where
  "splitOn sep acc [] = [acc]"
| "splitOn sep acc (c # cs) =
     (if sep \<noteq> [] \<and> prefix sep (c # cs)
      then acc # splitOn sep [] (drop (length sep) (c # cs))
      else splitOn sep (acc @ [c]) cs)"
  by pat_completeness auto
termination
  by (relation "measure (\<lambda>(sep, acc, s). length s)") (auto simp: neq_Nil_conv)

definition jsSplit :: "jsstring \<Rightarrow> jsstring \<Rightarrow> jsstring list" where
  "jsSplit sep s = (if sep = [] then map (\<lambda>c. [c]) s else splitOn sep [] s)"

text \<open>\<open>String(n)\<close> for a non-negative integer: its decimal digits.\<close>

definition digitChar :: "nat \<Rightarrow> jschar" where
  "digitChar d = of_nat (48 + d)"

function showNat :: "nat \<Rightarrow> jsstring" where
  "showNat n = (if n < 10 then [digitChar n] else showNat (n div 10) @ [digitChar (n mod 10)])"
  by pat_completeness auto
termination
  by (relation "measure id") auto

declare showNat.simps [simp del]

section \<open>Line endings and the byte-order mark (normalize.ts)\<close>

datatype LineEnding = CRLF | LFOnly

definition detectLineEnding :: "jsstring \<Rightarrow> LineEnding" where
  "detectLineEnding content =
     (let crlfIdx = indexOf content [CR, LF];
          lfIdx = indexOf content [LF]
      in case lfIdx of
           None \<Rightarrow> LFOnly
         | Some l \<Rightarrow> (case crlfIdx of
                        None \<Rightarrow> LFOnly
                      | Some c \<Rightarrow> if c < l then CRLF else LFOnly))"

text \<open>\<open>text.replace(/\r\n/g, "\n")\<close> and \<open>.replace(/\r/g, "\n")\<close>, one after the other.\<close>

fun replaceCRLF :: "jsstring \<Rightarrow> jsstring" where
  "replaceCRLF (a # b # cs) =
     (if a = CR \<and> b = LF then LF # replaceCRLF cs else a # replaceCRLF (b # cs))"
| "replaceCRLF cs = cs"

definition replaceCR :: "jsstring \<Rightarrow> jsstring" where
  "replaceCR s = map (\<lambda>c. if c = CR then LF else c) s"

definition normalizeToLF :: "jsstring \<Rightarrow> jsstring" where
  "normalizeToLF s = replaceCR (replaceCRLF s)"

definition restoreLineEndings :: "jsstring \<Rightarrow> LineEnding \<Rightarrow> jsstring" where
  "restoreLineEndings s ending =
     (if ending = CRLF then concat (map (\<lambda>c. if c = LF then [CR, LF] else [c]) s) else s)"

record BomResult =
  bom :: jsstring
  bomText :: jsstring

definition stripBom :: "jsstring \<Rightarrow> BomResult" where
  "stripBom content =
     (case content of
        c # cs \<Rightarrow> if c = BOM then \<lparr>bom = [BOM], bomText = cs\<rparr> else \<lparr>bom = [], bomText = content\<rparr>
      | [] \<Rightarrow> \<lparr>bom = [], bomText = content\<rparr>)"

text \<open>
  What the \<open>edit_file\<close> handler does to a text around the edits: it strips the mark,
  detects the line ending, normalises to line feeds, and on output restores the line
  ending and prepends the mark again. \<open>splitRejoin\<close> is that path with no edit in between.
\<close>

definition splitRejoin :: "jsstring \<Rightarrow> jsstring" where
  "splitRejoin rawContent =
     (let b = stripBom rawContent;
          originalEnding = detectLineEnding (bomText b);
          normalizedContent = normalizeToLF (bomText b)
      in bom b @ restoreLineEndings normalizedContent originalEnding)"

text \<open>
  Uniform line endings: no carriage return at all, or carriage return and line feed only
  as the pair CR LF.
\<close>

fun crlfPaired :: "jsstring \<Rightarrow> bool" where
  "crlfPaired [] = True"
| "crlfPaired (a # cs) =
     (if a = CR then (case cs of b # ds \<Rightarrow> b = LF \<and> crlfPaired ds | [] \<Rightarrow> False)
      else a \<noteq> LF \<and> crlfPaired cs)"

definition uniformEndings :: "jsstring \<Rightarrow> bool" where
  "uniformEndings s = (CR \<notin> set s \<or> crlfPaired s)"

section \<open>Line fingerprints (hashline.ts)\<close>

definition HASH_LEN :: nat where "HASH_LEN = 2"
definition RADIX :: nat where "RADIX = 16"
definition HASH_MOD :: nat where "HASH_MOD = RADIX ^ HASH_LEN"

text \<open>\<open>i.toString(16)\<close> and \<open>s.padStart(n, c)\<close>.\<close>

definition hexDigit :: "nat \<Rightarrow> jschar" where
  "hexDigit d = (if d < 10 then of_nat (48 + d) else of_nat (87 + d))"

function toStringHex :: "nat \<Rightarrow> jsstring" where
  "toStringHex n =
     (if n < 16 then [hexDigit n] else toStringHex (n div 16) @ [hexDigit (n mod 16)])"
  by pat_completeness auto
termination
  by (relation "measure id") auto

declare toStringHex.simps [simp del]

definition padStart :: "nat \<Rightarrow> jschar \<Rightarrow> jsstring \<Rightarrow> jsstring" where
  "padStart n c s = replicate (n - length s) c @ s"

definition DICT :: "jsstring list" where
  "DICT = map (\<lambda>i. padStart HASH_LEN 0x30 (toStringHex i)) [0..<HASH_MOD]"

text \<open>\<open>s.replace(/\s+/g, "")\<close>.\<close>

definition stripAllWhitespace :: "jsstring \<Rightarrow> jsstring" where
  "stripAllWhitespace s = filter (\<lambda>c. \<not> isSpace c) s"

definition stripTrailingCR :: "jsstring \<Rightarrow> jsstring" where
  "stripTrailingCR l = (if l \<noteq> [] \<and> last l = CR then butlast l else l)"

text \<open>
  \<open>computeLineHash\<close>. The hash \<open>Bun.hash.xxHash32\<close> belongs to the runtime, not to the
  repository: it is the parameter \<open>xxh\<close>, a function from strings to unsigned 32-bit
  numbers, and every general result below holds for every such function. The index
  argument of the source is unused there and left out.
\<close>

definition computeLineHash :: "(jsstring \<Rightarrow> nat) \<Rightarrow> jsstring \<Rightarrow> jsstring" where
  "computeLineHash xxh l = DICT ! (xxh (stripAllWhitespace (stripTrailingCR l)) mod HASH_MOD)"

definition isLowerHex :: "jschar \<Rightarrow> bool" where
  "isLowerHex c = (c \<in> set (js ''0123456789abcdef''))"

subsection \<open>The runtime's hash at concrete inputs\<close>

text \<open>
  For concrete files the hash has to be a concrete function. \<open>xxHash32\<close> is XXH32 with
  seed 0 over the UTF-8 bytes of the string, which is what the runtime computes; an
  unpaired surrogate is encoded as U+FFFD.
\<close>

definition utf8Bytes :: "nat \<Rightarrow> nat list" where
  "utf8Bytes cp =
     (if cp < 0x80 then [cp]
      else if cp < 0x800 then [0xC0 + cp div 64, 0x80 + cp mod 64]
      else if cp < 0x10000 then [0xE0 + cp div 4096, 0x80 + (cp div 64) mod 64, 0x80 + cp mod 64]
      else [0xF0 + cp div 262144, 0x80 + (cp div 4096) mod 64, 0x80 + (cp div 64) mod 64,
            0x80 + cp mod 64])"

fun utf8Encode :: "jsstring \<Rightarrow> nat list" where
  "utf8Encode [] = []"
| "utf8Encode [c] =
     (if 0xD800 \<le> unat c \<and> unat c < 0xE000 then utf8Bytes 0xFFFD else utf8Bytes (unat c))"
| "utf8Encode (c # d # cs) =
     (if 0xD800 \<le> unat c \<and> unat c < 0xDC00 then
        (if 0xDC00 \<le> unat d \<and> unat d < 0xE000
         then utf8Bytes (0x10000 + (unat c - 0xD800) * 1024 + (unat d - 0xDC00)) @ utf8Encode cs
         else utf8Bytes 0xFFFD @ utf8Encode (d # cs))
      else if 0xDC00 \<le> unat c \<and> unat c < 0xE000 then utf8Bytes 0xFFFD @ utf8Encode (d # cs)
      else utf8Bytes (unat c) @ utf8Encode (d # cs))"

definition PRIME32_1 :: "32 word" where "PRIME32_1 = 0x9E3779B1"
definition PRIME32_2 :: "32 word" where "PRIME32_2 = 0x85EBCA77"
definition PRIME32_3 :: "32 word" where "PRIME32_3 = 0xC2B2AE3D"
definition PRIME32_4 :: "32 word" where "PRIME32_4 = 0x27D4EB2F"
definition PRIME32_5 :: "32 word" where "PRIME32_5 = 0x165667B1"

definition rotl32 :: "32 word \<Rightarrow> nat \<Rightarrow> 32 word" where
  "rotl32 x r = push_bit r x OR drop_bit (32 - r) x"

definition read32le :: "nat list \<Rightarrow> 32 word" where
  "read32le bs = of_nat (bs ! 0 + 256 * bs ! 1 + 65536 * bs ! 2 + 16777216 * bs ! 3)"

definition xxRound :: "32 word \<Rightarrow> 32 word \<Rightarrow> 32 word" where
  "xxRound acc inp = rotl32 (acc + inp * PRIME32_2) 13 * PRIME32_1"

function xxStripes ::
  "32 word \<times> 32 word \<times> 32 word \<times> 32 word \<Rightarrow> nat list
     \<Rightarrow> (32 word \<times> 32 word \<times> 32 word \<times> 32 word) \<times> nat list" where
  "xxStripes (v1, v2, v3, v4) bs =
     (if length bs < 16 then ((v1, v2, v3, v4), bs)
      else xxStripes (xxRound v1 (read32le (take 4 bs)),
                      xxRound v2 (read32le (take 4 (drop 4 bs))),
                      xxRound v3 (read32le (take 4 (drop 8 bs))),
                      xxRound v4 (read32le (take 4 (drop 12 bs)))) (drop 16 bs))"
  by pat_completeness auto
termination
  by (relation "measure (\<lambda>(v, bs). length bs)") auto

declare xxStripes.simps [simp del]

fun xxTail :: "32 word \<Rightarrow> nat list \<Rightarrow> 32 word" where
  "xxTail h (a # b # c # d # bs) =
     xxTail (rotl32 (h + read32le [a, b, c, d] * PRIME32_3) 17 * PRIME32_4) bs"
| "xxTail h (a # bs) = xxTail (rotl32 (h + of_nat a * PRIME32_5) 11 * PRIME32_1) bs"
| "xxTail h [] = h"

definition xxAvalanche :: "32 word \<Rightarrow> 32 word" where
  "xxAvalanche h =
     (let h1 = (h XOR drop_bit 15 h) * PRIME32_2;
          h2 = (h1 XOR drop_bit 13 h1) * PRIME32_3
      in h2 XOR drop_bit 16 h2)"

definition xxh32 :: "nat list \<Rightarrow> 32 word" where
  "xxh32 bs =
     (let (h0, rest) =
            (if 16 \<le> length bs
             then (case xxStripes (PRIME32_1 + PRIME32_2, PRIME32_2, 0, 0 - PRIME32_1) bs of
                     ((v1, v2, v3, v4), rest) \<Rightarrow>
                       (rotl32 v1 1 + rotl32 v2 7 + rotl32 v3 12 + rotl32 v4 18, rest))
             else (PRIME32_5, bs))
      in xxAvalanche (xxTail (h0 + of_nat (length bs)) rest))"

definition xxHash32 :: "jsstring \<Rightarrow> nat" where
  "xxHash32 s = unat (xxh32 (utf8Encode s))"

section \<open>Edit operations and anchors (types.ts, hashline.ts)\<close>

text \<open>
  The request schema makes every field of an edit a string, so the fallbacks
  \<open>?? ""\<close> of the source never apply, and a missing \<open>end_anchor\<close> is the empty string.
\<close>

datatype HashlineEdit =
    SetLineEdit jsstring jsstring
  | ReplaceLinesEdit jsstring jsstring jsstring
  | InsertAfterEdit jsstring jsstring
  | ReplaceEdit jsstring jsstring "bool option"

record LineRef =
  line :: nat
  hash :: jsstring

record HashMismatch =
  mismatchLine :: nat
  expected :: jsstring
  actual :: jsstring

datatype ParsedRefs = Single LineRef | Range LineRef LineRef | InsertAfter LineRef

record ParsedEdit =
  spec :: ParsedRefs
  dstLines :: "jsstring list"

record NoopEdit =
  editIndex :: nat
  loc :: jsstring
  currentContent :: jsstring

text \<open>
  Every \<open>throw\<close> of the sources is a constructor. \<open>HashlineMismatchError\<close> carries the
  two arguments of its class constructor, the mismatches and the lines of the file; the
  other errors carry the values their messages print.
\<close>

datatype error =
    InvalidLineReference jsstring
  | LineNumberTooSmall nat jsstring
  | ReplaceEditsAppliedSeparately
  | LineDoesNotExist nat nat
  | InsertAfterRequiresNonEmpty
  | RangeStartAfterEnd nat nat
  | HashlineMismatchError "HashMismatch list" "jsstring list"
  | OldTextEmpty
  | ReplaceOldTextEmpty
  | FoundOccurrences jsstring
  | NoChangesMade "NoopEdit list"

subsection \<open>\<open>parseLineRef\<close>\<close>

text \<open>
  \<open>ref.replace(/\|.*$/, "")\<close> and \<open>.replace(/ {2}.*$/, "")\<close>: the dot matches no line
  terminator and \<open>$\<close> only the end of the string, so the first bar (pair of spaces) with
  no line terminator after it starts the match, which runs to the end.
\<close>

fun cutPipeTail :: "jsstring \<Rightarrow> jsstring" where
  "cutPipeTail [] = []"
| "cutPipeTail (c # cs) =
     (if c = 0x7C \<and> \<not> list_ex isLineTerminator cs then [] else c # cutPipeTail cs)"

fun cutDoubleSpaceTail :: "jsstring \<Rightarrow> jsstring" where
  "cutDoubleSpaceTail (a # b # cs) =
     (if a = 0x20 \<and> b = 0x20 \<and> \<not> list_ex isLineTerminator cs then []
      else a # cutDoubleSpaceTail (b # cs))"
| "cutDoubleSpaceTail cs = cs"

text \<open>\<open>cleaned.replace(/\s*:\s*/, ":")\<close>: the first colon with the whitespace around it.\<close>

definition normalizeColon :: "jsstring \<Rightarrow> jsstring" where
  "normalizeColon s =
     (case dropWhile (\<lambda>c. c \<noteq> 0x3A) s of
        [] \<Rightarrow> s
      | _ # after \<Rightarrow> trimEnd (takeWhile (\<lambda>c. c \<noteq> 0x3A) s) @ [0x3A] @ dropWhile isSpace after)"

text \<open>
  \<open>Number.parseInt(digits, 10)\<close> on a string of decimal digits, as a natural number.
  (Beyond \<open>2^53\<close> the source's number is the nearest double, still larger than any
  line count.)
\<close>

definition parseDecimal :: "jsstring \<Rightarrow> nat" where
  "parseDecimal ds = foldl (\<lambda>n c. 10 * n + (unat c - 48)) 0 ds"

text \<open>
  The two patterns \<open>/^(\d+):([0-9a-zA-Z]{1,16})$/\<close> and, failing that,
  \<open>/^(\d+):([0-9a-zA-Z]{2})/\<close>: the digits and the hash they capture.
\<close>

definition matchLineRef :: "jsstring \<Rightarrow> (jsstring \<times> jsstring) option" where
  "matchLineRef s =
     (let digits = takeWhile isDigit s in
      if digits = [] then None
      else (case dropWhile isDigit s of
              [] \<Rightarrow> None
            | c # h \<Rightarrow>
                if c \<noteq> 0x3A then None
                else if 1 \<le> length h \<and> length h \<le> 16 \<and> list_all isAlnum h then Some (digits, h)
                else if HASH_LEN \<le> length h \<and> list_all isAlnum (take HASH_LEN h)
                     then Some (digits, take HASH_LEN h)
                else None))"

definition parseLineRef :: "jsstring \<Rightarrow> error + LineRef" where
  "parseLineRef ref =
     (let cleaned = trim (cutDoubleSpaceTail (cutPipeTail ref));
          normalized = normalizeColon cleaned
      in case matchLineRef normalized of
           None \<Rightarrow> Inl (InvalidLineReference ref)
         | Some (digits, h) \<Rightarrow>
             (let n = parseDecimal digits in
              if n < 1 then Inl (LineNumberTooSmall n ref)
              else Inr \<lparr>line = n, hash = h\<rparr>))"

definition parseHashlineEdit :: "HashlineEdit \<Rightarrow> error + ParsedRefs \<times> jsstring" where
  "parseHashlineEdit edit =
     (case edit of
        SetLineEdit anchor new_text \<Rightarrow>
          (case parseLineRef anchor of
             Inl e \<Rightarrow> Inl e
           | Inr r \<Rightarrow> Inr (Single r, new_text))
      | ReplaceLinesEdit start_anchor end_anchor new_text \<Rightarrow>
          (case parseLineRef start_anchor of
             Inl e \<Rightarrow> Inl e
           | Inr start \<Rightarrow>
               if end_anchor = [] then Inr (Single start, new_text)
               else (case parseLineRef end_anchor of
                       Inl e \<Rightarrow> Inl e
                     | Inr end \<Rightarrow>
                         Inr (if line start = line end then Single start else Range start end,
                              new_text)))
      | ReplaceEdit old_text new_text all \<Rightarrow> Inl ReplaceEditsAppliedSeparately
      | InsertAfterEdit anchor txt \<Rightarrow>
          (case parseLineRef anchor of
             Inl e \<Rightarrow> Inl e
           | Inr r \<Rightarrow> Inr (InsertAfter r, txt)))"

definition splitDstLines :: "jsstring \<Rightarrow> jsstring list" where
  "splitDstLines dst = (if dst = [] then [] else splitLF dst)"

subsection \<open>Prefixes echoed in the replacement text\<close>

text \<open>
  \<open>HASHLINE_PREFIX_RE = /^\d+:[0-9a-zA-Z]{1,16}\|/\<close>: the rest of the line after the
  prefix, if the line has one. \<open>DIFF_PLUS_RE = /^\+(?!\+)/\<close>.
\<close>

definition matchHashlinePrefix :: "jsstring \<Rightarrow> jsstring option" where
  "matchHashlinePrefix l =
     (if takeWhile isDigit l = [] then None
      else (case dropWhile isDigit l of
              [] \<Rightarrow> None
            | c # r \<Rightarrow>
                if c \<noteq> 0x3A then None
                else (let h = takeWhile isAlnum r in
                      if 1 \<le> length h \<and> length h \<le> 16
                      then (case dropWhile isAlnum r of
                              [] \<Rightarrow> None
                            | b # rest \<Rightarrow> if b = 0x7C then Some rest else None)
                      else None)))"

definition matchesDiffPlus :: "jsstring \<Rightarrow> bool" where
  "matchesDiffPlus l =
     (case l of
        [] \<Rightarrow> False
      | c # r \<Rightarrow> c = 0x2B \<and> (case r of [] \<Rightarrow> True | d # _ \<Rightarrow> d \<noteq> 0x2B))"

definition stripNewLinePrefixes :: "jsstring list \<Rightarrow> jsstring list" where
  "stripNewLinePrefixes lines =
     (let nonEmpty = length (filter (\<lambda>l. l \<noteq> []) lines);
          hashPrefixCount = length (filter (\<lambda>l. l \<noteq> [] \<and> matchHashlinePrefix l \<noteq> None) lines);
          diffPlusCount = length (filter (\<lambda>l. l \<noteq> [] \<and> matchesDiffPlus l) lines)
      in if nonEmpty = 0 then lines
         else (let stripHash = (hashPrefixCount > 0 \<and> 2 * hashPrefixCount \<ge> nonEmpty);
                   stripPlus = (\<not> stripHash \<and> diffPlusCount > 0 \<and> 2 * diffPlusCount \<ge> nonEmpty)
               in if \<not> stripHash \<and> \<not> stripPlus then lines
                  else map (\<lambda>l. if stripHash
                                 then (case matchHashlinePrefix l of Some r \<Rightarrow> r | None \<Rightarrow> l)
                                 else if stripPlus then (if matchesDiffPlus l then tl l else l)
                                 else l) lines))"

subsection \<open>Heuristics on the replacement lines\<close>

definition vibeCheck :: "jsstring \<Rightarrow> jsstring \<Rightarrow> bool" where
  "vibeCheck a b = (if a = b then True else stripAllWhitespace a = stripAllWhitespace b)"

text \<open>
  \<open>s.replace(/(?:&&|\|\||\?\?|\?|:|=|,|\+|-|\*|\/|\.|\()\s*$/u, "")\<close>: a token at the
  end of the string, trailing whitespace apart, is removed together with that whitespace.
  The leftmost match wins, so a two-character token is tried before its last character.
\<close>

definition continuationChars :: "jschar list" where
  "continuationChars = js ''?:=,+-*/.(''"

definition stripTrailingContinuationTokens :: "jsstring \<Rightarrow> jsstring" where
  "stripTrailingContinuationTokens s =
     (let t = trimEnd s; n = length t in
      if 2 \<le> n \<and> drop (n - 2) t \<in> set [js ''&&'', js ''||'', js ''??''] then take (n - 2) t
      else if 1 \<le> n \<and> last t \<in> set continuationChars then take (n - 1) t
      else s)"

definition stripMergeOperatorChars :: "jsstring \<Rightarrow> jsstring" where
  "stripMergeOperatorChars s = filter (\<lambda>c. c \<notin> set (js ''|&?'')) s"

definition leadingWhitespace :: "jsstring \<Rightarrow> jsstring" where
  "leadingWhitespace s = takeWhile isSpace s"

definition restoreLeadingIndent :: "jsstring \<Rightarrow> jsstring \<Rightarrow> jsstring" where
  "restoreLeadingIndent templateLine l =
     (if length l = 0 then l
      else (let templateIndent = leadingWhitespace templateLine in
            if length templateIndent = 0 then l
            else if length (leadingWhitespace l) > 0 then l
            else templateIndent @ l))"

definition isConfusableHyphen :: "jschar \<Rightarrow> bool" where
  "isConfusableHyphen c =
     (c \<in> set [0x2010, 0x2011, 0x2012, 0x2013, 0x2014, 0x2212, 0xFE63, 0xFF0D])"

definition normalizeConfusableHyphens :: "jsstring \<Rightarrow> jsstring" where
  "normalizeConfusableHyphens s = map (\<lambda>c. if isConfusableHyphen c then 0x2D else c) s"

definition normalizeConfusableHyphensInLines :: "jsstring list \<Rightarrow> jsstring list" where
  "normalizeConfusableHyphensInLines lines = map normalizeConfusableHyphens lines"

definition restoreIndentForPairedReplacement :: "jsstring list \<Rightarrow> jsstring list \<Rightarrow> jsstring list" where
  "restoreIndentForPairedReplacement oldLines newLines =
     (if length oldLines \<noteq> length newLines then newLines
      else (let out = map (\<lambda>(old, new). restoreLeadingIndent old new) (zip oldLines newLines);
                changed = (out \<noteq> newLines)
            in if changed then out else newLines))"

text \<open>
  \<open>restoreOldWrappedLines\<close>. The map \<open>canonToOld\<close> keeps, for each whitespace-free form,
  the first old line with that form and the number of old lines with it.
\<close>

record WrapCandidate =
  start :: nat
  len :: nat
  replacement :: jsstring
  canon :: jsstring

definition canonToOld :: "jsstring list \<Rightarrow> (jsstring \<rightharpoonup> jsstring \<times> nat)" where
  "canonToOld oldLines =
     foldl (\<lambda>m l. (let c = stripAllWhitespace l in
                     case m c of
                       Some (first, n) \<Rightarrow> m(c \<mapsto> (first, n + 1))
                     | None \<Rightarrow> m(c \<mapsto> (l, 1))))
           Map.empty oldLines"

definition wrapCandidates :: "jsstring list \<Rightarrow> jsstring list \<Rightarrow> WrapCandidate list" where
  "wrapCandidates oldLines newLines =
     concat (map (\<lambda>s.
       concat (map (\<lambda>n.
         if s + n \<le> length newLines
         then (let canonSpan = stripAllWhitespace (concat (take n (drop s newLines))) in
               case canonToOld oldLines canonSpan of
                 Some (old, cnt) \<Rightarrow>
                   if cnt = 1 \<and> length canonSpan \<ge> 6
                   then [\<lparr>start = s, len = n, replacement = old, canon = canonSpan\<rparr>]
                   else []
               | None \<Rightarrow> [])
         else []) [2..<11])) [0..<length newLines])"

text \<open>
  \<open>uniqueCandidates.sort((a, b) => b.start - a.start)\<close>: a stable sort, so
  candidates with the same start keep their order.
\<close>

fun insertByStart :: "WrapCandidate \<Rightarrow> WrapCandidate list \<Rightarrow> WrapCandidate list" where
  "insertByStart c [] = [c]"
| "insertByStart c (d # ds) = (if start d < start c then c # d # ds else d # insertByStart c ds)"

definition sortByStartDesc :: "WrapCandidate list \<Rightarrow> WrapCandidate list" where
  "sortByStartDesc cs = foldl (\<lambda>acc c. insertByStart c acc) [] cs"

text \<open>\<open>xs.splice(start, deleteCount, ...items)\<close> and \<open>xs.slice(a, b)\<close> for \<open>a \<le> b\<close>.\<close>

definition splice :: "'a list \<Rightarrow> nat \<Rightarrow> nat \<Rightarrow> 'a list \<Rightarrow> 'a list" where
  "splice xs s deleteCount items = take s xs @ items @ drop (s + deleteCount) xs"

definition slice :: "'a list \<Rightarrow> nat \<Rightarrow> nat \<Rightarrow> 'a list" where
  "slice xs a b = take (b - a) (drop a xs)"

definition restoreOldWrappedLines :: "jsstring list \<Rightarrow> jsstring list \<Rightarrow> jsstring list" where
  "restoreOldWrappedLines oldLines newLines =
     (if length oldLines = 0 \<or> length newLines < 2 then newLines
      else (let candidates = wrapCandidates oldLines newLines in
            if length candidates = 0 then newLines
            else (let uniqueCandidates =
                        filter (\<lambda>c. length (filter (\<lambda>d. canon d = canon c) candidates) = 1)
                          candidates
                  in if length uniqueCandidates = 0 then newLines
                     else foldl (\<lambda>out c. splice out (start c) (len c) [replacement c])
                            newLines (sortByStartDesc uniqueCandidates))))"

definition isSubstantive :: "jsstring \<Rightarrow> bool" where
  "isSubstantive l = (length (trim l) > 0)"

definition stripInsertAnchorEchoAfter :: "jsstring \<Rightarrow> jsstring list \<Rightarrow> jsstring list" where
  "stripInsertAnchorEchoAfter anchorLine dst =
     (if length dst \<le> 1 then dst
      else if \<not> isSubstantive anchorLine \<or> \<not> isSubstantive (dst ! 0) then dst
      else if vibeCheck (dst ! 0) anchorLine then drop 1 dst
      else dst)"

text \<open>
  \<open>stripRangeBoundaryEcho\<close>; \<open>startLine\<close> and \<open>endLine\<close> are line numbers from 1, so the
  test \<open>beforeIdx >= 0\<close> of the source, with \<open>beforeIdx = startLine - 2\<close>, is
  \<open>startLine \<ge> 2\<close>.
\<close>

definition stripRangeBoundaryEcho ::
  "jsstring list \<Rightarrow> nat \<Rightarrow> nat \<Rightarrow> jsstring list \<Rightarrow> jsstring list" where
  "stripRangeBoundaryEcho fileLines startLine endLine dst =
     (let count = int endLine - int startLine + 1 in
      if length dst \<le> 1 \<or> int (length dst) \<le> count then dst
      else (let out1 =
                  (if startLine \<ge> 2 \<and> isSubstantive (dst ! 0)
                      \<and> isSubstantive (fileLines ! (startLine - 2))
                      \<and> vibeCheck (dst ! 0) (fileLines ! (startLine - 2))
                   then drop 1 dst else dst);
                afterIdx = endLine
            in if afterIdx < length fileLines \<and> length out1 > 0
                  \<and> isSubstantive (out1 ! (length out1 - 1))
                  \<and> isSubstantive (fileLines ! afterIdx)
                  \<and> vibeCheck (out1 ! (length out1 - 1)) (fileLines ! afterIdx)
               then take (length out1 - 1) out1
               else out1))"

text \<open>
  \<open>maybeExpandSingleLineMerge\<close>, a closure of \<open>applyHashlineEdits\<close>: it reads the
  current lines of the file and the set of lines that the batch touches explicitly.
\<close>

record MergeResult =
  startLine :: nat
  deleteCount :: nat
  newLines :: "jsstring list"

definition maybeExpandSingleLineMerge ::
  "jsstring list \<Rightarrow> nat set \<Rightarrow> nat \<Rightarrow> jsstring list \<Rightarrow> MergeResult option" where
  "maybeExpandSingleLineMerge fileLines explicitlyTouchedLines lnum dst =
     (if length dst \<noteq> 1 then None
      else if lnum < 1 \<or> lnum > length fileLines then None
      else (let newLine = dst ! 0;
                newCanon = stripAllWhitespace newLine;
                newCanonForMergeOps = stripMergeOperatorChars newCanon
            in if length newCanon = 0 then None
               else (let orig = fileLines ! (lnum - 1);
                         origCanon = stripAllWhitespace orig;
                         origCanonForMatch = stripTrailingContinuationTokens origCanon;
                         origCanonForMergeOps = stripMergeOperatorChars origCanon;
                         origLooksLikeContinuation = (length origCanonForMatch < length origCanon)
                     in if length origCanon = 0 then None
                        else (let nextIdx = lnum;
                                  mergeNext =
                                    (if origLooksLikeContinuation \<and> nextIdx < length fileLines
                                        \<and> lnum + 1 \<notin> explicitlyTouchedLines
                                     then (let nextCanon = stripAllWhitespace (fileLines ! nextIdx) in
                                           case (indexOf newCanon origCanonForMatch,
                                                 indexOf newCanon nextCanon) of
                                             (Some a, Some b) \<Rightarrow>
                                               a < b \<and> length newCanon
                                                 \<le> length origCanon + length nextCanon + 32
                                           | _ \<Rightarrow> False)
                                     else False)
                              in if mergeNext
                                 then Some \<lparr>startLine = lnum, deleteCount = 2, newLines = [newLine]\<rparr>
                                 else if lnum \<ge> 2 \<and> lnum - 1 \<notin> explicitlyTouchedLines
                                 then (let prevCanon = stripAllWhitespace (fileLines ! (lnum - 2));
                                           prevCanonForMatch = stripTrailingContinuationTokens prevCanon;
                                           prevLooksLikeContinuation =
                                             (length prevCanonForMatch < length prevCanon)
                                       in if \<not> prevLooksLikeContinuation then None
                                          else (case (indexOf newCanonForMergeOps
                                                        (stripMergeOperatorChars prevCanonForMatch),
                                                      indexOf newCanonForMergeOps origCanonForMergeOps) of
                                                  (Some a, Some b) \<Rightarrow>
                                                    if a < b \<and> length newCanon
                                                         \<le> length prevCanon + length origCanon + 32
                                                    then Some \<lparr>startLine = lnum - 1, deleteCount = 2,
                                                               newLines = [newLine]\<rparr>
                                                    else None
                                                | _ \<Rightarrow> None))
                                 else None))))"

section \<open>Applying a batch of anchored edits (\<open>applyHashlineEdits\<close>)\<close>

subsection \<open>Validation and relocation\<close>

text \<open>
  The pass over the file that builds \<open>uniqueLineByHash\<close> and \<open>seenDuplicateHashes\<close>:
  a fingerprint that one line has maps to that line, a fingerprint of two or more lines
  is deleted from the map.
\<close>

fun indexHashes ::
  "(jsstring \<Rightarrow> nat) \<Rightarrow> jsstring list \<Rightarrow> nat
     \<Rightarrow> (jsstring \<rightharpoonup> nat) \<times> jsstring set \<Rightarrow> (jsstring \<rightharpoonup> nat) \<times> jsstring set" where
  "indexHashes xxh [] lineNo (u, d) = (u, d)"
| "indexHashes xxh (l # ls) lineNo (u, d) =
     (let h = computeLineHash xxh l in
      if h \<in> d then indexHashes xxh ls (Suc lineNo) (u, d)
      else if u h \<noteq> None then indexHashes xxh ls (Suc lineNo) (u(h := None), insert h d)
      else indexHashes xxh ls (Suc lineNo) (u(h \<mapsto> lineNo), d))"

definition uniqueLineByHash :: "(jsstring \<Rightarrow> nat) \<Rightarrow> jsstring list \<Rightarrow> (jsstring \<rightharpoonup> nat)" where
  "uniqueLineByHash xxh fileLines = fst (indexHashes xxh fileLines 1 (Map.empty, {}))"

text \<open>
  \<open>ref.hash.toLowerCase()\<close>. A hash that passed \<open>parseLineRef\<close> consists of ASCII
  letters and digits, on which lower-casing is the ASCII one.
\<close>

definition toLowerCase :: "jsstring \<Rightarrow> jsstring" where
  "toLowerCase s = map (\<lambda>c. if 0x41 \<le> c \<and> c \<le> 0x5A then c + 0x20 else c) s"

definition buildMismatch :: "(jsstring \<Rightarrow> nat) \<Rightarrow> jsstring list \<Rightarrow> LineRef \<Rightarrow> nat \<Rightarrow> HashMismatch" where
  "buildMismatch xxh fileLines ref lnum =
     \<lparr>mismatchLine = lnum, expected = hash ref, actual = computeLineHash xxh (fileLines ! (lnum - 1))\<rparr>"

datatype RefStatus = Ok bool | NotOk

text \<open>
  \<open>validateOrRelocateRef\<close> changes \<open>ref.line\<close> in place and pushes to \<open>mismatches\<close>: the
  model returns the reference, the status and the mismatches to append.
\<close>

definition validateOrRelocateRef ::
  "(jsstring \<Rightarrow> nat) \<Rightarrow> jsstring list \<Rightarrow> LineRef
     \<Rightarrow> error + LineRef \<times> RefStatus \<times> HashMismatch list" where
  "validateOrRelocateRef xxh fileLines ref =
     (if line ref < 1 \<or> line ref > length fileLines
      then Inl (LineDoesNotExist (line ref) (length fileLines))
      else (let expectedHash = toLowerCase (hash ref);
                actualHash = computeLineHash xxh (fileLines ! (line ref - 1))
            in if actualHash = expectedHash then Inr (ref, Ok False, [])
               else (case uniqueLineByHash xxh fileLines expectedHash of
                       None \<Rightarrow>
                         Inr (ref, NotOk,
                              [\<lparr>mismatchLine = line ref, expected = hash ref, actual = actualHash\<rparr>])
                     | Some relocated \<Rightarrow> Inr (ref\<lparr>line := relocated\<rparr>, Ok True, []))))"

definition relocatedStatus :: "RefStatus \<Rightarrow> bool" where
  "relocatedStatus st = (case st of Ok r \<Rightarrow> r | NotOk \<Rightarrow> False)"

text \<open>One round of the validation loop: the edit with its references updated, and the
  mismatches it adds.\<close>

definition validateEdit ::
  "(jsstring \<Rightarrow> nat) \<Rightarrow> jsstring list \<Rightarrow> ParsedEdit \<Rightarrow> error + ParsedEdit \<times> HashMismatch list" where
  "validateEdit xxh fileLines p =
     (case spec p of
        Single ref \<Rightarrow>
          (case validateOrRelocateRef xxh fileLines ref of
             Inl e \<Rightarrow> Inl e
           | Inr (ref', st, ms) \<Rightarrow> Inr (p\<lparr>spec := Single ref'\<rparr>, ms))
      | InsertAfter after \<Rightarrow>
          if length (dstLines p) = 0 then Inl InsertAfterRequiresNonEmpty
          else (case validateOrRelocateRef xxh fileLines after of
                  Inl e \<Rightarrow> Inl e
                | Inr (after', st, ms) \<Rightarrow> Inr (p\<lparr>spec := InsertAfter after'\<rparr>, ms))
      | Range s e \<Rightarrow>
          if line s > line e then Inl (RangeStartAfterEnd (line s) (line e))
          else (let originalStart = line s;
                    originalEnd = line e;
                    originalCount = int originalEnd - int originalStart + 1
                in case validateOrRelocateRef xxh fileLines s of
                     Inl err \<Rightarrow> Inl err
                   | Inr (s', startStatus, ms1) \<Rightarrow>
                       (case validateOrRelocateRef xxh fileLines e of
                          Inl err \<Rightarrow> Inl err
                        | Inr (e', endStatus, ms2) \<Rightarrow>
                            if startStatus = NotOk \<or> endStatus = NotOk
                            then Inr (p\<lparr>spec := Range s' e'\<rparr>, ms1 @ ms2)
                            else (let relocatedCount = int (line e') - int (line s') + 1;
                                      changedByRelocation =
                                        (relocatedStatus startStatus \<or> relocatedStatus endStatus);
                                      invalidRange = (line s' > line e');
                                      scopeChanged = (relocatedCount \<noteq> originalCount)
                                  in if changedByRelocation \<and> (invalidRange \<or> scopeChanged)
                                     then Inr (p\<lparr>spec := Range (s'\<lparr>line := originalStart\<rparr>)
                                                                 (e'\<lparr>line := originalEnd\<rparr>)\<rparr>,
                                               ms1 @ ms2 @
                                               [buildMismatch xxh fileLines (s'\<lparr>line := originalStart\<rparr>) originalStart,
                                                buildMismatch xxh fileLines (e'\<lparr>line := originalEnd\<rparr>) originalEnd])
                                     else Inr (p\<lparr>spec := Range s' e'\<rparr>, ms1 @ ms2)))))"

fun validateAll ::
  "(jsstring \<Rightarrow> nat) \<Rightarrow> jsstring list \<Rightarrow> ParsedEdit list
     \<Rightarrow> error + ParsedEdit list \<times> HashMismatch list" where
  "validateAll xxh fileLines [] = Inr ([], [])"
| "validateAll xxh fileLines (p # ps) =
     (case validateEdit xxh fileLines p of
        Inl e \<Rightarrow> Inl e
      | Inr (p', ms) \<Rightarrow>
          (case validateAll xxh fileLines ps of
             Inl e \<Rightarrow> Inl e
           | Inr (ps', ms') \<Rightarrow> Inr (p' # ps', ms @ ms')))"

subsection \<open>Duplicates and order\<close>

definition collectExplicitlyTouchedLines :: "ParsedEdit list \<Rightarrow> nat set" where
  "collectExplicitlyTouchedLines parsed =
     (\<Union>p \<in> set parsed.
        case spec p of
          Single ref \<Rightarrow> {line ref}
        | Range s e \<Rightarrow> {line s..line e}
        | InsertAfter after \<Rightarrow> {line after})"

definition lineKey :: "ParsedRefs \<Rightarrow> jsstring" where
  "lineKey sp =
     (case sp of
        Single ref \<Rightarrow> js ''s:'' @ showNat (line ref)
      | Range s e \<Rightarrow> js ''r:'' @ showNat (line s) @ js '':'' @ showNat (line e)
      | InsertAfter after \<Rightarrow> js ''i:'' @ showNat (line after))"

definition dstKey :: "ParsedEdit \<Rightarrow> jsstring" where
  "dstKey p = lineKey (spec p) @ js ''|'' @ joinLF (dstLines p)"

text \<open>An edit whose key was seen before is dropped; the others keep their order.\<close>

fun dedupe :: "jsstring set \<Rightarrow> ParsedEdit list \<Rightarrow> ParsedEdit list" where
  "dedupe seenEditKeys [] = []"
| "dedupe seenEditKeys (p # ps) =
     (if dstKey p \<in> seenEditKeys then dedupe seenEditKeys ps
      else p # dedupe (insert (dstKey p) seenEditKeys) ps)"

record AnnotatedEdit = ParsedEdit +
  idx :: nat
  sortLine :: nat
  precedence :: nat

definition annotate :: "ParsedEdit \<Rightarrow> nat \<Rightarrow> AnnotatedEdit" where
  "annotate p i =
     (case spec p of
        Single ref \<Rightarrow>
          \<lparr>spec = spec p, dstLines = dstLines p, idx = i, sortLine = line ref, precedence = 0\<rparr>
      | Range s e \<Rightarrow>
          \<lparr>spec = spec p, dstLines = dstLines p, idx = i, sortLine = line e, precedence = 0\<rparr>
      | InsertAfter after \<Rightarrow>
          \<lparr>spec = spec p, dstLines = dstLines p, idx = i, sortLine = line after, precedence = 1\<rparr>)"

text \<open>
  The comparator \<open>b.sortLine - a.sortLine || a.precedence - b.precedence || a.idx - b.idx\<close>
  is negative exactly when \<open>editBefore a b\<close>; the sort is a stable insertion sort.
\<close>

definition editBefore :: "AnnotatedEdit \<Rightarrow> AnnotatedEdit \<Rightarrow> bool" where
  "editBefore a b =
     (sortLine b < sortLine a
      \<or> (sortLine a = sortLine b
          \<and> (precedence a < precedence b \<or> (precedence a = precedence b \<and> idx a < idx b))))"

fun insertEdit :: "AnnotatedEdit \<Rightarrow> AnnotatedEdit list \<Rightarrow> AnnotatedEdit list" where
  "insertEdit a [] = [a]"
| "insertEdit a (b # bs) = (if editBefore a b then a # b # bs else b # insertEdit a bs)"

definition sortEdits :: "AnnotatedEdit list \<Rightarrow> AnnotatedEdit list" where
  "sortEdits as = foldl (\<lambda>acc a. insertEdit a acc) [] as"

subsection \<open>Applying the edits, bottom up\<close>

record ApplyState =
  fileLines :: "jsstring list"
  firstChangedLine :: "nat option"
  noopEdits :: "NoopEdit list"

definition trackFirstChanged :: "nat \<Rightarrow> nat option \<Rightarrow> nat option" where
  "trackFirstChanged lnum firstChanged =
     (case firstChanged of
        None \<Rightarrow> Some lnum
      | Some f \<Rightarrow> if lnum < f then Some lnum else Some f)"

definition refLoc :: "LineRef \<Rightarrow> jsstring" where
  "refLoc ref = showNat (line ref) @ js '':'' @ hash ref"

text \<open>
  The last steps of every replacement: if the new lines equal the old ones and an old
  line has a confusable hyphen, the hyphens of the new lines are made ASCII.
\<close>

definition hyphenFallback :: "jsstring list \<Rightarrow> jsstring list \<Rightarrow> jsstring list" where
  "hyphenFallback origLines newLs =
     (if joinLF origLines = joinLF newLs \<and> list_ex (list_ex isConfusableHyphen) origLines
      then normalizeConfusableHyphensInLines newLs
      else newLs)"

text \<open>
  The replacement lines of an ordinary single-line or range replacement, as the source
  computes them from the original lines of the file.
\<close>

definition resolveReplacement ::
  "jsstring list \<Rightarrow> nat \<Rightarrow> nat \<Rightarrow> jsstring list \<Rightarrow> jsstring list" where
  "resolveReplacement originalFileLines startLn endLn dst =
     (let origLines = slice originalFileLines (startLn - 1) endLn;
          stripped = stripRangeBoundaryEcho originalFileLines startLn endLn dst;
          stripped2 = restoreOldWrappedLines origLines stripped;
          newLs = restoreIndentForPairedReplacement origLines stripped2
      in hyphenFallback origLines newLs)"

definition recordNoop :: "ApplyState \<Rightarrow> nat \<Rightarrow> LineRef \<Rightarrow> jsstring \<Rightarrow> ApplyState" where
  "recordNoop st i ref cur =
     st\<lparr>noopEdits := noopEdits st @ [\<lparr>editIndex = i, loc = refLoc ref, currentContent = cur\<rparr>]\<rparr>"

definition applyEdit ::
  "jsstring list \<Rightarrow> nat set \<Rightarrow> ApplyState \<Rightarrow> AnnotatedEdit \<Rightarrow> ApplyState" where
  "applyEdit originalFileLines explicitlyTouchedLines st a =
     (case spec a of
        Single ref \<Rightarrow>
          (case maybeExpandSingleLineMerge (fileLines st) explicitlyTouchedLines (line ref) (dstLines a) of
             Some merged \<Rightarrow>
               (let origLines = slice originalFileLines (startLine merged - 1)
                                  (startLine merged - 1 + deleteCount merged);
                    nextLines = restoreIndentForPairedReplacement
                                  [case origLines of [] \<Rightarrow> [] | l # _ \<Rightarrow> l] (newLines merged);
                    nextLines2 = hyphenFallback origLines nextLines
                in if joinLF origLines = joinLF nextLines2
                   then recordNoop st (idx a) ref (joinLF origLines)
                   else st\<lparr>fileLines := splice (fileLines st) (startLine merged - 1)
                                            (deleteCount merged) nextLines2,
                           firstChangedLine := trackFirstChanged (startLine merged) (firstChangedLine st)\<rparr>)
           | None \<Rightarrow>
               (let origLines = slice originalFileLines (line ref - 1) (line ref);
                    newLs = resolveReplacement originalFileLines (line ref) (line ref) (dstLines a)
                in if joinLF origLines = joinLF newLs
                   then recordNoop st (idx a) ref (joinLF origLines)
                   else st\<lparr>fileLines := splice (fileLines st) (line ref - 1) 1 newLs,
                           firstChangedLine := trackFirstChanged (line ref) (firstChangedLine st)\<rparr>))
      | Range s e \<Rightarrow>
          (let count = line e + 1 - line s;
               origLines = slice originalFileLines (line s - 1) (line s - 1 + count);
               newLs = resolveReplacement originalFileLines (line s) (line e) (dstLines a)
           in if joinLF origLines = joinLF newLs
              then recordNoop st (idx a) s (joinLF origLines)
              else st\<lparr>fileLines := splice (fileLines st) (line s - 1) count newLs,
                      firstChangedLine := trackFirstChanged (line s) (firstChangedLine st)\<rparr>)
      | InsertAfter after \<Rightarrow>
          (let anchorLine = originalFileLines ! (line after - 1);
               inserted = stripInsertAnchorEchoAfter anchorLine (dstLines a)
           in if length inserted = 0
              then recordNoop st (idx a) after (originalFileLines ! (line after - 1))
              else st\<lparr>fileLines := splice (fileLines st) (line after) 0 inserted,
                      firstChangedLine := trackFirstChanged (line after + 1) (firstChangedLine st)\<rparr>))"

subsection \<open>The whole function\<close>

record ApplyResult =
  content :: jsstring
  resultFirstChangedLine :: "nat option"
  warnings :: "jsstring list"
  resultNoopEdits :: "NoopEdit list"

text \<open>\<open>edits.map(...)\<close>: each edit parsed, its text split and cleaned; the first error ends it.\<close>

fun parseEdits :: "HashlineEdit list \<Rightarrow> error + ParsedEdit list" where
  "parseEdits [] = Inr []"
| "parseEdits (e # es) =
     (case parseHashlineEdit e of
        Inl err \<Rightarrow> Inl err
      | Inr (sp, dst) \<Rightarrow>
          (case parseEdits es of
             Inl err \<Rightarrow> Inl err
           | Inr ps \<Rightarrow>
               Inr (\<lparr>spec = sp, dstLines = stripNewLinePrefixes (splitDstLines dst)\<rparr> # ps)))"

definition diffLineCount :: "jsstring list \<Rightarrow> jsstring list \<Rightarrow> nat" where
  "diffLineCount newFile oldFile =
     (if length newFile \<ge> length oldFile then length newFile - length oldFile
      else length oldFile - length newFile)
     + length (filter (\<lambda>(a, b). a \<noteq> b) (zip newFile oldFile))"

definition reformatWarning :: "nat \<Rightarrow> nat \<Rightarrow> jsstring" where
  "reformatWarning d n =
     js ''Edit changed '' @ showNat d @ js '' lines across '' @ showNat n @ js '' operations ''
       @ [0x2014] @ js '' verify no unintended reformatting.''"

text \<open>
  \<open>applyHashlineEdits\<close>. The set \<open>explicitlyTouchedLines\<close> is computed twice in the
  source; only the second value, after validation, is ever read.
\<close>

definition applyHashlineEdits ::
  "(jsstring \<Rightarrow> nat) \<Rightarrow> jsstring \<Rightarrow> HashlineEdit list \<Rightarrow> error + ApplyResult" where
  "applyHashlineEdits xxh cont edits =
     (if length edits = 0
      then Inr \<lparr>content = cont, resultFirstChangedLine = None, warnings = [], resultNoopEdits = []\<rparr>
      else (let originalFileLines = splitLF cont in
            case parseEdits edits of
              Inl err \<Rightarrow> Inl err
            | Inr parsed \<Rightarrow>
                (case validateAll xxh originalFileLines parsed of
                   Inl err \<Rightarrow> Inl err
                 | Inr (validated, mismatches) \<Rightarrow>
                     if length mismatches > 0
                     then Inl (HashlineMismatchError mismatches originalFileLines)
                     else (let explicitlyTouchedLines = collectExplicitlyTouchedLines validated;
                               deduped = dedupe {} validated;
                               annotated = sortEdits (map (\<lambda>(p, i). annotate p i)
                                                       (zip deduped [0..<length deduped]));
                               final = foldl (applyEdit originalFileLines explicitlyTouchedLines)
                                         \<lparr>fileLines = originalFileLines, firstChangedLine = None,
                                          noopEdits = []\<rparr> annotated;
                               d = diffLineCount (fileLines final) originalFileLines
                           in Inr \<lparr>content = joinLF (fileLines final),
                                   resultFirstChangedLine = firstChangedLine final,
                                   warnings = (if d > length edits * 4
                                               then [reformatWarning d (length edits)] else []),
                                   resultNoopEdits = noopEdits final\<rparr>))))"

section \<open>Substring replacement (fuzzy.ts, diff.ts)\<close>

text \<open>
  Confidence scores are double-precision numbers. The model has the real number each
  denotes, so that comparisons are exact. The score of a window against the target
  (\<open>normalizeLines\<close>, \<open>similarity\<close> and the mean, all in floating point) is the parameter
  \<open>windowScore\<close>; so is the body of \<open>adjustIndentation\<close> beyond its first test, which is
  reached only with the text of a fuzzy match. The results below hold for all values of
  both parameters.
\<close>

record FuzzyRuntime =
  windowScore :: "bool \<Rightarrow> jsstring list \<Rightarrow> jsstring list \<Rightarrow> real"
  adjustFuzzyIndentation :: "jsstring \<Rightarrow> jsstring \<Rightarrow> jsstring \<Rightarrow> jsstring"

definition DEFAULT_FUZZY_THRESHOLD :: real where "DEFAULT_FUZZY_THRESHOLD = 0.95"
definition FALLBACK_THRESHOLD :: real where "FALLBACK_THRESHOLD = 0.8"
definition OCCURRENCE_PREVIEW_CONTEXT :: nat where "OCCURRENCE_PREVIEW_CONTEXT = 5"
definition OCCURRENCE_PREVIEW_MAX_LEN :: nat where "OCCURRENCE_PREVIEW_MAX_LEN = 80"

record FuzzyMatch =
  actualText :: jsstring
  startIndex :: nat
  matchStartLine :: nat
  confidence :: real

record MatchOutcome =
  matched :: "FuzzyMatch option"
  closest :: "FuzzyMatch option"
  occurrences :: "nat option"
  occurrenceLines :: "nat list option"
  occurrencePreviews :: "jsstring list option"
  fuzzyMatches :: "nat option"
  dominantFuzzy :: "bool option"

definition emptyOutcome :: MatchOutcome where
  "emptyOutcome = \<lparr>matched = None, closest = None, occurrences = None, occurrenceLines = None,
     occurrencePreviews = None, fuzzyMatches = None, dominantFuzzy = None\<rparr>"

record BestFuzzyMatchResult =
  best :: "FuzzyMatch option"
  aboveThresholdCount :: nat
  secondBestScore :: real

record CoreState = BestFuzzyMatchResult +
  bestScore :: real

definition computeLineOffsets :: "jsstring list \<Rightarrow> nat list" where
  "computeLineOffsets lines =
     map (\<lambda>i. sum_list (map length (take i lines)) + i) [0..<length lines]"

definition coreStep ::
  "FuzzyRuntime \<Rightarrow> jsstring list \<Rightarrow> jsstring list \<Rightarrow> nat list \<Rightarrow> real \<Rightarrow> bool
     \<Rightarrow> CoreState \<Rightarrow> nat \<Rightarrow> CoreState" where
  "coreStep rt contentLines targetLines offsets threshold includeDepth st s =
     (let windowLines = slice contentLines s (s + length targetLines);
          score = windowScore rt includeDepth targetLines windowLines;
          st1 = (if score \<ge> threshold
                 then st\<lparr>aboveThresholdCount := aboveThresholdCount st + 1\<rparr> else st)
      in if score > bestScore st1
         then st1\<lparr>secondBestScore := bestScore st1, bestScore := score,
                  best := Some \<lparr>actualText = joinLF windowLines, startIndex = offsets ! s,
                                matchStartLine = s + 1, confidence = score\<rparr>\<rparr>
         else if score > secondBestScore st1 then st1\<lparr>secondBestScore := score\<rparr>
         else st1)"

definition findBestFuzzyMatchCore ::
  "FuzzyRuntime \<Rightarrow> jsstring list \<Rightarrow> jsstring list \<Rightarrow> nat list \<Rightarrow> real \<Rightarrow> bool
     \<Rightarrow> BestFuzzyMatchResult" where
  "findBestFuzzyMatchCore rt contentLines targetLines offsets threshold includeDepth =
     (let final = foldl (coreStep rt contentLines targetLines offsets threshold includeDepth)
                    \<lparr>best = None, aboveThresholdCount = 0, secondBestScore = - 1, bestScore = - 1\<rparr>
                    (if length targetLines \<le> length contentLines
                     then [0..<Suc (length contentLines - length targetLines)] else [])
      in \<lparr>best = best final, aboveThresholdCount = aboveThresholdCount final,
          secondBestScore = secondBestScore final\<rparr>)"

definition findBestFuzzyMatch ::
  "FuzzyRuntime \<Rightarrow> jsstring \<Rightarrow> jsstring \<Rightarrow> real \<Rightarrow> BestFuzzyMatchResult" where
  "findBestFuzzyMatch rt cont target threshold =
     (let contentLines = splitLF cont;
          targetLines = splitLF target
      in if length targetLines = 0 \<or> length target = 0
         then \<lparr>best = None, aboveThresholdCount = 0, secondBestScore = 0\<rparr>
         else if length targetLines > length contentLines
         then \<lparr>best = None, aboveThresholdCount = 0, secondBestScore = 0\<rparr>
         else (let offsets = computeLineOffsets contentLines;
                   result = findBestFuzzyMatchCore rt contentLines targetLines offsets threshold True
               in case best result of
                    None \<Rightarrow> result
                  | Some b \<Rightarrow>
                      if confidence b < threshold \<and> confidence b \<ge> FALLBACK_THRESHOLD
                      then (let noDepthResult =
                                  findBestFuzzyMatchCore rt contentLines targetLines offsets threshold False
                            in case best noDepthResult of
                                 None \<Rightarrow> result
                               | Some nb \<Rightarrow> if confidence nb > confidence b then noDepthResult else result)
                      else result))"

text \<open>One line of a preview: \<open>`  ${num} | ${line}`\<close>, a long line cut with an ellipsis.\<close>

definition previewLine :: "nat \<Rightarrow> jsstring \<Rightarrow> jsstring" where
  "previewLine num l =
     js ''  '' @ showNat num @ js '' | ''
       @ (if length l > OCCURRENCE_PREVIEW_MAX_LEN
          then take (OCCURRENCE_PREVIEW_MAX_LEN - 1) l @ [0x2026] else l)"

text \<open>The loop \<open>for (let i = 0; i < 5; i++)\<close> over the occurrences, \<open>k\<close> rounds left.\<close>

fun occurrenceLoop ::
  "nat \<Rightarrow> jsstring \<Rightarrow> jsstring \<Rightarrow> jsstring list \<Rightarrow> nat \<Rightarrow> nat list \<times> jsstring list" where
  "occurrenceLoop 0 cont target contentLines searchStart = ([], [])"
| "occurrenceLoop (Suc k) cont target contentLines searchStart =
     (case indexOfFrom cont target searchStart of
        None \<Rightarrow> ([], [])
      | Some i \<Rightarrow>
          (let lineNumber = length (splitLF (take i cont));
               s = lineNumber - 1 - OCCURRENCE_PREVIEW_CONTEXT;
               e = min (length contentLines) (lineNumber + OCCURRENCE_PREVIEW_CONTEXT + 1);
               previewLines = slice contentLines s e;
               preview = joinLF (map (\<lambda>(l, j). previewLine (s + j + 1) l)
                                   (zip previewLines [0..<length previewLines]));
               (ls, ps) = occurrenceLoop k cont target contentLines (i + 1)
           in (lineNumber # ls, preview # ps)))"

definition findMatch ::
  "FuzzyRuntime \<Rightarrow> jsstring \<Rightarrow> jsstring \<Rightarrow> bool \<Rightarrow> real option \<Rightarrow> MatchOutcome" where
  "findMatch rt cont target allowFuzzy thresholdOpt =
     (if length target = 0 then emptyOutcome
      else (case indexOf cont target of
              Some exactIndex \<Rightarrow>
                (let occ = length (jsSplit target cont) - 1 in
                 if occ > 1
                 then (let (ls, ps) = occurrenceLoop 5 cont target (splitLF cont) 0 in
                       emptyOutcome\<lparr>occurrences := Some occ, occurrenceLines := Some ls,
                                    occurrencePreviews := Some ps\<rparr>)
                 else emptyOutcome\<lparr>matched :=
                        Some \<lparr>actualText = target, startIndex = exactIndex,
                              matchStartLine = length (splitLF (take exactIndex cont)),
                              confidence = 1\<rparr>\<rparr>)
            | None \<Rightarrow>
                (let threshold = (case thresholdOpt of Some t \<Rightarrow> t | None \<Rightarrow> DEFAULT_FUZZY_THRESHOLD);
                     r = findBestFuzzyMatch rt cont target threshold
                 in case best r of
                      None \<Rightarrow> emptyOutcome
                    | Some b \<Rightarrow>
                        if allowFuzzy \<and> confidence b \<ge> threshold \<and> aboveThresholdCount r = 1
                        then emptyOutcome\<lparr>matched := Some b, closest := Some b\<rparr>
                        else if allowFuzzy \<and> confidence b \<ge> threshold
                                \<and> aboveThresholdCount r > 1 \<and> confidence b \<ge> 0.97
                                \<and> confidence b - secondBestScore r \<ge> 0.08
                        then emptyOutcome\<lparr>matched := Some b, closest := Some b,
                                fuzzyMatches := Some (aboveThresholdCount r), dominantFuzzy := Some True\<rparr>
                        else emptyOutcome\<lparr>closest := Some b,
                                fuzzyMatches := Some (aboveThresholdCount r)\<rparr>)))"

text \<open>\<open>adjustIndentation\<close>: its first test, then the parameter.\<close>

definition adjustIndentation :: "FuzzyRuntime \<Rightarrow> jsstring \<Rightarrow> jsstring \<Rightarrow> jsstring \<Rightarrow> jsstring" where
  "adjustIndentation rt oldText actualTxt newText =
     (if oldText = actualTxt then newText else adjustFuzzyIndentation rt oldText actualTxt newText)"

record ReplaceOptions =
  fuzzy :: bool
  replaceAll :: bool
  threshold :: "real option"

record ReplaceResult =
  resultContent :: jsstring
  resultCount :: nat

text \<open>
  The loop \<open>while (true)\<close> of the branch \<open>options.all\<close>. Nothing bounds the number of its
  rounds, so it is a partial function: \<open>None\<close> is the loop that does not end.
\<close>

partial_function (option) replaceAllLoop ::
  "FuzzyRuntime \<Rightarrow> jsstring \<Rightarrow> jsstring \<Rightarrow> bool \<Rightarrow> real \<Rightarrow> jsstring \<Rightarrow> nat \<Rightarrow> ReplaceResult option" where
  "replaceAllLoop rt normalizedOldText normalizedNewText fz thr normalizedContent cnt =
     (let matchOutcome = findMatch rt normalizedContent normalizedOldText fz (Some thr);
          shouldUseClosest =
            (fz \<and> (case closest matchOutcome of
                      None \<Rightarrow> False
                    | Some c \<Rightarrow> confidence c \<ge> thr
                        \<and> (case fuzzyMatches matchOutcome of None \<Rightarrow> True | Some n \<Rightarrow> n \<le> 1)));
          m = (case matched matchOutcome of
                 Some x \<Rightarrow> Some x
               | None \<Rightarrow> if shouldUseClosest then closest matchOutcome else None)
      in case m of
           None \<Rightarrow> Some \<lparr>resultContent = normalizedContent, resultCount = cnt\<rparr>
         | Some x \<Rightarrow>
             (let adjustedNewText = adjustIndentation rt normalizedOldText (actualText x) normalizedNewText in
              if adjustedNewText = actualText x
              then Some \<lparr>resultContent = normalizedContent, resultCount = cnt\<rparr>
              else replaceAllLoop rt normalizedOldText normalizedNewText fz thr
                     (take (startIndex x) normalizedContent @ adjustedNewText
                        @ drop (startIndex x + length (actualText x)) normalizedContent)
                     (cnt + 1)))"

definition foundOccurrencesMessage :: "nat \<Rightarrow> jsstring list \<Rightarrow> jsstring" where
  "foundOccurrencesMessage occ previews =
     js ''Found '' @ showNat occ @ js '' occurrences''
       @ (if occ > 5 then js '' (showing first 5 of '' @ showNat occ @ js '')'' else [])
       @ js '':'' @ [LF, LF] @ joinWith [LF, LF] previews @ [LF, LF]
       @ js ''Add more context lines to disambiguate.''"

definition replaceText ::
  "FuzzyRuntime \<Rightarrow> jsstring \<Rightarrow> jsstring \<Rightarrow> jsstring \<Rightarrow> ReplaceOptions
     \<Rightarrow> (error + ReplaceResult) option" where
  "replaceText rt cont oldText newText options =
     (if length oldText = 0 then Some (Inl OldTextEmpty)
      else (let thr = (case threshold options of Some t \<Rightarrow> t | None \<Rightarrow> DEFAULT_FUZZY_THRESHOLD);
                normalizedContent = normalizeToLF cont;
                normalizedOldText = normalizeToLF oldText;
                normalizedNewText = normalizeToLF newText
            in if replaceAll options
               then (let exactCount = length (jsSplit normalizedOldText normalizedContent) - 1 in
                     if exactCount > 0
                     then Some (Inr \<lparr>resultContent =
                                       joinWith normalizedNewText (jsSplit normalizedOldText normalizedContent),
                                     resultCount = exactCount\<rparr>)
                     else map_option Inr
                            (replaceAllLoop rt normalizedOldText normalizedNewText (fuzzy options) thr
                               normalizedContent 0))
               else (let matchOutcome =
                           findMatch rt normalizedContent normalizedOldText (fuzzy options) (Some thr)
                     in if (case occurrences matchOutcome of Some n \<Rightarrow> n > 1 | None \<Rightarrow> False)
                        then Some (Inl (FoundOccurrences
                               (foundOccurrencesMessage (the (occurrences matchOutcome))
                                  (case occurrencePreviews matchOutcome of Some ps \<Rightarrow> ps | None \<Rightarrow> []))))
                        else (case matched matchOutcome of
                                None \<Rightarrow> Some (Inr \<lparr>resultContent = normalizedContent, resultCount = 0\<rparr>)
                              | Some x \<Rightarrow>
                                  (let adjustedNewText =
                                         adjustIndentation rt normalizedOldText (actualText x) normalizedNewText
                                   in Some (Inr \<lparr>resultContent =
                                                   take (startIndex x) normalizedContent @ adjustedNewText
                                                     @ drop (startIndex x + length (actualText x)) normalizedContent,
                                                 resultCount = 1\<rparr>))))))"

section \<open>The \<open>edit_file\<close> handler\<close>

text \<open>
  The handler reads the file, applies the anchored edits and then the substring
  replacements, and writes the file only if the text changed. The model takes the text
  of the file and returns the text written, or the error reported; after an error the
  file is as it was. A request that passed the schema has edits of the four shapes only.
\<close>

definition isReplaceEdit :: "HashlineEdit \<Rightarrow> bool" where
  "isReplaceEdit e = (case e of ReplaceEdit old_text new_text all \<Rightarrow> True | _ \<Rightarrow> False)"

fun applyReplaceEdits ::
  "FuzzyRuntime \<Rightarrow> jsstring \<Rightarrow> HashlineEdit list \<Rightarrow> (error + jsstring) option" where
  "applyReplaceEdits rt normalizedContent [] = Some (Inr normalizedContent)"
| "applyReplaceEdits rt normalizedContent (e # es) =
     (case e of
        ReplaceEdit old_text new_text all \<Rightarrow>
          if length old_text = 0 then Some (Inl ReplaceOldTextEmpty)
          else (case replaceText rt normalizedContent old_text new_text
                       \<lparr>fuzzy = True, replaceAll = (case all of Some b \<Rightarrow> b | None \<Rightarrow> False),
                        threshold = Some DEFAULT_FUZZY_THRESHOLD\<rparr> of
                  None \<Rightarrow> None
                | Some (Inl err) \<Rightarrow> Some (Inl err)
                | Some (Inr rep) \<Rightarrow> applyReplaceEdits rt (resultContent rep) es)
      | _ \<Rightarrow> applyReplaceEdits rt normalizedContent es)"

definition edit_file ::
  "(jsstring \<Rightarrow> nat) \<Rightarrow> FuzzyRuntime \<Rightarrow> jsstring \<Rightarrow> HashlineEdit list \<Rightarrow> (error + jsstring) option" where
  "edit_file xxh rt rawContent edits =
     (let b = stripBom rawContent;
          originalEnding = detectLineEnding (bomText b);
          originalNormalized = normalizeToLF (bomText b);
          anchorEdits = filter (\<lambda>e. \<not> isReplaceEdit e) edits;
          replaceEdits = filter isReplaceEdit edits
      in case applyHashlineEdits xxh originalNormalized anchorEdits of
           Inl err \<Rightarrow> Some (Inl err)
         | Inr anchorResult \<Rightarrow>
             (case applyReplaceEdits rt (content anchorResult) replaceEdits of
                None \<Rightarrow> None
              | Some (Inl err) \<Rightarrow> Some (Inl err)
              | Some (Inr normalizedContent) \<Rightarrow>
                  if originalNormalized = normalizedContent
                  then Some (Inl (NoChangesMade (resultNoopEdits anchorResult)))
                  else Some (Inr (bom b @ restoreLineEndings normalizedContent originalEnding))))"

text \<open>The text of the file after the call.\<close>

definition fileAfter :: "jsstring \<Rightarrow> (error + jsstring) option \<Rightarrow> jsstring" where
  "fileAfter rawContent result = (case result of Some (Inr written) \<Rightarrow> written | _ \<Rightarrow> rawContent)"

section \<open>Notions used to state the results\<close>

text \<open>
  The result that \<open>applyHashlineEdits\<close> builds from the final state of a batch of one
  edit: the lines joined, the first changed line, the warning if more than four lines
  differ, and the no-op edits.
\<close>

definition singleResult :: "jsstring list \<Rightarrow> ApplyState \<Rightarrow> ApplyResult" where
  "singleResult original final =
     \<lparr>content = joinLF (fileLines final),
      resultFirstChangedLine = firstChangedLine final,
      warnings = (if diffLineCount (fileLines final) original > 4
                  then [reformatWarning (diffLineCount (fileLines final) original) 1] else []),
      resultNoopEdits = noopEdits final\<rparr>"

text \<open>
  A runtime for concrete inputs that never reach the scoring: there the result of
  \<open>replaceText\<close> is the same for every runtime.
\<close>

definition zeroScoreRuntime :: FuzzyRuntime where
  "zeroScoreRuntime = \<lparr>windowScore = (\<lambda>includeDepth targetLines windowLines. 0),
                        adjustFuzzyIndentation = (\<lambda>oldText actualTxt newText. newText)\<rparr>"

text \<open>The invariant of the window loop: a best window at or above the threshold was counted.\<close>

definition counted :: "real \<Rightarrow> FuzzyMatch option \<Rightarrow> nat \<Rightarrow> bool" where
  "counted thr b n = (case b of None \<Rightarrow> True | Some m \<Rightarrow> confidence m \<ge> thr \<longrightarrow> n \<ge> 1)"

text \<open>
  The numbers of the lines whose fingerprint is \<open>h\<close>, in a list of lines that starts at
  line number \<open>n\<close>.
\<close>

fun linesWithHash :: "(jsstring \<Rightarrow> nat) \<Rightarrow> jsstring \<Rightarrow> jsstring list \<Rightarrow> nat \<Rightarrow> nat list" where
  "linesWithHash xxh h [] n = []"
| "linesWithHash xxh h (l # ls) n =
     (if computeLineHash xxh l = h then [n] else []) @ linesWithHash xxh h ls (Suc n)"

text \<open>The anchors of a parsed edit.\<close>

definition anchorsOf :: "ParsedRefs \<Rightarrow> LineRef list" where
  "anchorsOf sp = (case sp of Single ref \<Rightarrow> [ref] | Range s e \<Rightarrow> [s, e] | InsertAfter after \<Rightarrow> [after])"

text \<open>
  The round trip: for every line of a text, the \<open>set_line\<close> edit whose anchor is the
  line's number and fingerprint, rendered as \<open>LINE:HASH\<close>, and whose new text is the
  line itself; what each of these edits is parsed to; and the no-op entry it leaves.
\<close>

definition selfEdit :: "(jsstring \<Rightarrow> nat) \<Rightarrow> nat \<times> jsstring \<Rightarrow> HashlineEdit" where
  "selfEdit xxh = (\<lambda>(i, l). SetLineEdit (showNat i @ js '':'' @ computeLineHash xxh l) l)"

definition selfEdits :: "(jsstring \<Rightarrow> nat) \<Rightarrow> jsstring \<Rightarrow> HashlineEdit list" where
  "selfEdits xxh c = map (selfEdit xxh) (enumerate 1 (splitLF c))"

definition selfParsed :: "(jsstring \<Rightarrow> nat) \<Rightarrow> nat \<times> jsstring \<Rightarrow> ParsedEdit" where
  "selfParsed xxh = (\<lambda>(i, l). \<lparr>spec = Single \<lparr>line = i, hash = computeLineHash xxh l\<rparr>,
                               dstLines = (if l = [] then [] else [l])\<rparr>)"

definition selfNoop :: "(jsstring \<Rightarrow> nat) \<Rightarrow> nat \<times> jsstring \<Rightarrow> NoopEdit" where
  "selfNoop xxh = (\<lambda>(i, l). \<lparr>editIndex = i - 1,
                             loc = showNat i @ js '':'' @ computeLineHash xxh l,
                             currentContent = l\<rparr>)"

text \<open>
  A line that the heuristics on replacement text leave alone: it starts with no
  \<open>LINE:HASH|\<close> prefix and no single \<open>+\<close>, and it has no confusable hyphen.
\<close>

definition plainLine :: "jsstring \<Rightarrow> bool" where
  "plainLine l = (matchHashlinePrefix l = None \<and> \<not> matchesDiffPlus l
                  \<and> \<not> list_ex isConfusableHyphen l)"

text \<open>
  The anchors of an edit that reach the validation loop, as texts: all anchors of the
  edit, except the end anchor of a \<open>replace_lines\<close> edit that is empty or names the same
  line as the start anchor. \<open>parseHashlineEdit\<close> parses such an end anchor and keeps the
  start anchor only, so its fingerprint is never compared with the file.
\<close>

definition checkedAnchors :: "HashlineEdit \<Rightarrow> jsstring list" where
  "checkedAnchors edit =
     (case edit of
        SetLineEdit anchor new_text \<Rightarrow> [anchor]
      | ReplaceLinesEdit start_anchor end_anchor new_text \<Rightarrow>
          if end_anchor = [] then [start_anchor]
          else (case (parseLineRef start_anchor, parseLineRef end_anchor) of
                  (Inr s, Inr e) \<Rightarrow>
                    if line s = line e then [start_anchor] else [start_anchor, end_anchor]
                | _ \<Rightarrow> [start_anchor, end_anchor])
      | InsertAfterEdit anchor txt \<Rightarrow> [anchor]
      | ReplaceEdit old_text new_text all \<Rightarrow> [])"

text \<open>
  The apply loop of \<open>applyHashlineEdits\<close> on the edits that passed validation: duplicates
  dropped, the rest annotated, sorted and applied to the lines of the file.
\<close>

definition applyValidated :: "jsstring list \<Rightarrow> ParsedEdit list \<Rightarrow> ApplyState" where
  "applyValidated originalFileLines validated =
     (let explicitlyTouchedLines = collectExplicitlyTouchedLines validated;
          deduped = dedupe {} validated;
          annotated = sortEdits (map (\<lambda>(p, i). annotate p i) (zip deduped [0..<length deduped]))
      in foldl (applyEdit originalFileLines explicitlyTouchedLines)
           \<lparr>fileLines = originalFileLines, firstChangedLine = None, noopEdits = []\<rparr> annotated)"

section \<open>Results on line endings and the byte-order mark\<close>

lemma replaceCRLF_noCR: "CR \<notin> set s \<Longrightarrow> replaceCRLF s = s"
  by (induction s rule: replaceCRLF.induct) auto

lemma replaceCR_noCR: "CR \<notin> set s \<Longrightarrow> replaceCR s = s"
  by (induction s) (auto simp: replaceCR_def)

lemma normalizeToLF_noCR: "CR \<notin> set s \<Longrightarrow> normalizeToLF s = s"
  by (simp add: normalizeToLF_def replaceCRLF_noCR replaceCR_noCR)

lemma CR_notin_normalizeToLF: "CR \<notin> set (normalizeToLF s)"
  by (auto simp: normalizeToLF_def replaceCR_def CR_def LF_def)

lemma findAt_CRLF_noCR: "CR \<notin> set s \<Longrightarrow> findAt [CR, LF] s i = None"
  by (induction s arbitrary: i) auto

lemma detectLineEnding_noCR: "CR \<notin> set s \<Longrightarrow> detectLineEnding s = LFOnly"
  by (simp add: detectLineEnding_def indexOf_def findAt_CRLF_noCR split: option.splits)

lemma findAt_crlfPaired:
  "crlfPaired s \<Longrightarrow> LF \<in> set s \<Longrightarrow>
     \<exists>c l. findAt [CR, LF] s i = Some c \<and> findAt [LF] s i = Some l \<and> c < l"
proof (induction s arbitrary: i rule: crlfPaired.induct)
  case 1 then show ?case by simp
next
  case (2 a cs)
  show ?case
  proof (cases "a = CR")
    case True
    with 2(3) obtain ds where "cs = LF # ds" by (auto split: list.splits)
    with True show ?thesis by (simp add: CR_def LF_def)
  next
    case False
    with 2 have "crlfPaired cs" "LF \<in> set cs" "a \<noteq> LF" by auto
    with 2(2)[OF False] False show ?thesis by simp
  qed
qed

lemma detectLineEnding_crlfPaired:
  "crlfPaired s \<Longrightarrow> LF \<in> set s \<Longrightarrow> detectLineEnding s = CRLF"
  using findAt_crlfPaired[of s 0] by (auto simp: detectLineEnding_def indexOf_def)

lemma crlfPaired_noLF_noCR: "crlfPaired s \<Longrightarrow> LF \<notin> set s \<Longrightarrow> CR \<notin> set s"
  by (induction s rule: crlfPaired.induct) (auto split: list.splits if_splits)

lemma restore_normalize_crlfPaired:
  "crlfPaired s \<Longrightarrow> restoreLineEndings (normalizeToLF s) CRLF = s"
proof (induction s rule: crlfPaired.induct)
  case 1 then show ?case by (simp add: restoreLineEndings_def normalizeToLF_def replaceCR_def)
next
  case (2 a cs)
  show ?case
  proof (cases "a = CR")
    case True
    with 2(3) obtain ds where cs: "cs = LF # ds" and p: "crlfPaired ds" by (auto split: list.splits)
    from 2(1)[OF True cs] p have "restoreLineEndings (normalizeToLF ds) CRLF = ds" by simp
    with True cs show ?thesis
      by (simp add: restoreLineEndings_def normalizeToLF_def replaceCR_def CR_def LF_def)
  next
    case False
    with 2 have p: "crlfPaired cs" and nl: "a \<noteq> LF" by auto
    from 2(2)[OF False p] have ih: "restoreLineEndings (normalizeToLF cs) CRLF = cs" .
    have "replaceCRLF (a # cs) = a # replaceCRLF cs" using False by (cases cs) auto
    with ih False nl show ?thesis
      by (simp add: restoreLineEndings_def normalizeToLF_def replaceCR_def)
  qed
qed

lemma crlfPaired_restore: "CR \<notin> set s \<Longrightarrow> crlfPaired (restoreLineEndings s CRLF)"
  by (induction s) (auto simp: restoreLineEndings_def CR_def LF_def)

lemma stripBom_append: "bom (stripBom s) @ bomText (stripBom s) = s"
  by (simp add: stripBom_def split: list.splits)

lemma restore_normalize_iff:
  "(restoreLineEndings (normalizeToLF s) (detectLineEnding s) = s) = uniformEndings s"
proof
  assume eq: "restoreLineEndings (normalizeToLF s) (detectLineEnding s) = s"
  show "uniformEndings s"
  proof (cases "detectLineEnding s")
    case CRLF
    with eq have "crlfPaired s"
      using crlfPaired_restore[OF CR_notin_normalizeToLF, of s] by simp
    then show ?thesis by (simp add: uniformEndings_def)
  next
    case LFOnly
    with eq have "normalizeToLF s = s" by (simp add: restoreLineEndings_def)
    then have "CR \<notin> set s" using CR_notin_normalizeToLF[of s] by simp
    then show ?thesis by (simp add: uniformEndings_def)
  qed
next
  assume u: "uniformEndings s"
  show "restoreLineEndings (normalizeToLF s) (detectLineEnding s) = s"
  proof (cases "CR \<in> set s")
    case False
    then show ?thesis
      by (simp add: detectLineEnding_noCR normalizeToLF_noCR restoreLineEndings_def)
  next
    case True
    with u have p: "crlfPaired s" by (simp add: uniformEndings_def)
    with True have "LF \<in> set s" using crlfPaired_noLF_noCR by blast
    with p show ?thesis
      by (simp add: detectLineEnding_crlfPaired restore_normalize_crlfPaired)
  qed
qed

text \<open>
  Claim C4, amended. Capturing the byte-order mark and the line-ending style, collapsing
  CR LF and CR to LF and, with the text otherwise unmodified, restoring the style and the
  mark gives back the input exactly when the line endings of the input are uniform: no
  carriage return at all, or carriage return and line feed only as CR LF pairs.
\<close>

theorem splitRejoin_identity_iff:
  "(splitRejoin rawContent = rawContent) = uniformEndings (bomText (stripBom rawContent))"
proof -
  have "(splitRejoin rawContent = rawContent) =
        (bom (stripBom rawContent) @ restoreLineEndings (normalizeToLF (bomText (stripBom rawContent)))
            (detectLineEnding (bomText (stripBom rawContent)))
         = bom (stripBom rawContent) @ bomText (stripBom rawContent))"
    by (simp add: splitRejoin_def Let_def stripBom_append)
  then show ?thesis by (simp add: restore_normalize_iff)
qed

theorem splitRejoin_identity_witness:
  "splitRejoin [BOM, 0x61, CR, LF, 0x62, CR, LF] = [BOM, 0x61, CR, LF, 0x62, CR, LF]
   \<and> uniformEndings [0x61, CR, LF, 0x62, CR, LF]"
  using splitRejoin_identity_iff [of "[BOM, 0x61, CR, LF, 0x62, CR, LF]"]
  by (simp add: stripBom_def uniformEndings_def CR_def LF_def BOM_def)

text \<open>
  As stated for every input, claim C4 fails on a text with mixed line endings: the first
  line break decides the style and the lone line feed comes back as CR LF.
\<close>

theorem splitRejoin_mixed_counterexample:
  "splitRejoin [0x61, CR, LF, 0x62, LF, 0x63] = [0x61, CR, LF, 0x62, CR, LF, 0x63]
   \<and> splitRejoin [0x61, CR, LF, 0x62, LF, 0x63] \<noteq> [0x61, CR, LF, 0x62, LF, 0x63]"
  by (simp add: splitRejoin_def stripBom_def detectLineEnding_def indexOf_def normalizeToLF_def
      replaceCR_def restoreLineEndings_def CR_def LF_def BOM_def)

section \<open>Results on fingerprints\<close>

lemma toStringHex_small: "n < 16 \<Longrightarrow> toStringHex n = [hexDigit n]"
  by (simp add: toStringHex.simps)

lemma toStringHex_byte: "16 \<le> n \<Longrightarrow> n < 256 \<Longrightarrow> toStringHex n = [hexDigit (n div 16), hexDigit (n mod 16)]"
  by (subst toStringHex.simps) (simp add: toStringHex_small)

lemma HASH_MOD_256: "HASH_MOD = 256"
  by (simp add: HASH_MOD_def RADIX_def HASH_LEN_def)

lemma DICT_nth: "k < 256 \<Longrightarrow> DICT ! k = [hexDigit (k div 16), hexDigit (k mod 16)]"
proof (cases "k < 16")
  case True
  assume "k < 256"
  then show ?thesis using True
    by (simp add: DICT_def HASH_MOD_256 toStringHex_small padStart_def HASH_LEN_def hexDigit_def)
next
  case False
  assume "k < 256"
  then show ?thesis using False
    by (simp add: DICT_def HASH_MOD_256 toStringHex_byte padStart_def HASH_LEN_def)
qed

lemma length_DICT: "length DICT = 256"
  by (simp add: DICT_def HASH_MOD_256)

lemma computeLineHash_eq:
  "computeLineHash xxh l =
     [hexDigit (xxh (stripAllWhitespace (stripTrailingCR l)) mod 256 div 16),
      hexDigit (xxh (stripAllWhitespace (stripTrailingCR l)) mod 16)]"
proof -
  have "xxh (stripAllWhitespace (stripTrailingCR l)) mod 256 mod 16
        = xxh (stripAllWhitespace (stripTrailingCR l)) mod 16"
    by (simp add: mod_mod_cancel)
  then show ?thesis by (simp add: computeLineHash_def HASH_MOD_256 DICT_nth)
qed

lemma isLowerHex_hexDigit: "d < 16 \<Longrightarrow> isLowerHex (hexDigit d)"
proof -
  assume "d < 16"
  then have "d = 0 \<or> d = 1 \<or> d = 2 \<or> d = 3 \<or> d = 4 \<or> d = 5 \<or> d = 6 \<or> d = 7
    \<or> d = 8 \<or> d = 9 \<or> d = 10 \<or> d = 11 \<or> d = 12 \<or> d = 13 \<or> d = 14 \<or> d = 15"
    by arith
  then show ?thesis
    by (elim disjE) (simp_all add: isLowerHex_def hexDigit_def js_def)
qed

lemma isSpace_CR: "isSpace CR"
  by (simp add: isSpace_def CR_def)

lemma stripAllWhitespace_stripTrailingCR:
  "stripAllWhitespace (stripTrailingCR l) = stripAllWhitespace l"
proof (cases "l \<noteq> [] \<and> last l = CR")
  case True
  then have "l = butlast l @ [CR]" by (metis append_butlast_last_id)
  then have "stripAllWhitespace l = stripAllWhitespace (butlast l)"
    by (metis (no_types, lifting) append_Nil2 filter.simps filter_append isSpace_CR stripAllWhitespace_def)
  with True show ?thesis by (simp add: stripTrailingCR_def)
next
  case False
  then show ?thesis by (auto simp: stripTrailingCR_def)
qed

text \<open>
  Claim C2. The fingerprint of a line depends only on the line with a trailing carriage
  return stripped and all whitespace removed: two lines with the same stripped form have
  the same code, whatever the hash function is; lines that differ in whitespace only have
  the same code; and the code is always two lower-case hexadecimal characters, one of the
  256 entries of the table.
\<close>

theorem computeLineHash_whitespace_insensitive:
  "(stripAllWhitespace (stripTrailingCR a) = stripAllWhitespace (stripTrailingCR b)
      \<longrightarrow> computeLineHash xxh a = computeLineHash xxh b)
   \<and> (stripAllWhitespace a = stripAllWhitespace b \<longrightarrow> computeLineHash xxh a = computeLineHash xxh b)
   \<and> length (computeLineHash xxh a) = 2
   \<and> (\<forall>c \<in> set (computeLineHash xxh a). isLowerHex c)
   \<and> computeLineHash xxh a \<in> set DICT \<and> length DICT = 256"
proof -
  have 1: "stripAllWhitespace (stripTrailingCR a) = stripAllWhitespace (stripTrailingCR b)
             \<longrightarrow> computeLineHash xxh a = computeLineHash xxh b"
    by (simp add: computeLineHash_def)
  have 2: "stripAllWhitespace a = stripAllWhitespace b \<longrightarrow> computeLineHash xxh a = computeLineHash xxh b"
    by (simp add: computeLineHash_def stripAllWhitespace_stripTrailingCR)
  have 3: "length (computeLineHash xxh a) = 2" by (simp add: computeLineHash_eq)
  have lt: "xxh (stripAllWhitespace (stripTrailingCR a)) mod 256 div 16 < 16"
    by (simp add: less_mult_imp_div_less)
  have 4: "\<forall>c \<in> set (computeLineHash xxh a). isLowerHex c"
    using lt by (simp add: computeLineHash_eq isLowerHex_hexDigit)
  have 5: "computeLineHash xxh a \<in> set DICT"
    unfolding computeLineHash_def
    by (rule nth_mem) (simp add: length_DICT HASH_MOD_256)
  from 1 2 3 4 5 length_DICT show ?thesis by blast
qed

theorem computeLineHash_whitespace_insensitive_witness:
  "stripAllWhitespace (stripTrailingCR (js ''  foo bar''))
     = stripAllWhitespace (stripTrailingCR (js ''foo  bar'' @ [CR]))
   \<and> stripAllWhitespace (js ''  foo bar'') = stripAllWhitespace (js ''foo  bar'' @ [CR])
   \<and> computeLineHash xxHash32 (js ''  foo bar'') = computeLineHash xxHash32 (js ''foo  bar'' @ [CR])
   \<and> length (computeLineHash xxHash32 (js ''  foo bar'')) = 2
   \<and> list_all isLowerHex (computeLineHash xxHash32 (js ''  foo bar''))"
  using computeLineHash_whitespace_insensitive
          [of "js ''  foo bar''" "js ''foo  bar'' @ [CR]" xxHash32]
  by (simp add: computeLineHash_eq stripAllWhitespace_def stripTrailingCR_def js_def
      isSpace_def CR_def list_all_iff)


section \<open>Results on echo stripping\<close>

lemma vibeCheck_iff: "vibeCheck a b = (stripAllWhitespace a = stripAllWhitespace b)"
  by (auto simp: vibeCheck_def)

lemma stripRangeBoundaryEcho_short:
  "length dst \<le> 1 \<Longrightarrow> stripRangeBoundaryEcho flines s e dst = dst"
  by (simp add: stripRangeBoundaryEcho_def)

lemma stripRangeBoundaryEcho_cases:
  assumes "2 \<le> length dst"
  shows "\<exists>a b. a \<le> 1 \<and> b \<le> 1
           \<and> stripRangeBoundaryEcho flines s e dst = take (length dst - a - b) (drop a dst)
           \<and> (a = 1 \<longrightarrow> s \<ge> 2 \<and> isSubstantive (dst ! 0) \<and> isSubstantive (flines ! (s - 2))
                  \<and> stripAllWhitespace (dst ! 0) = stripAllWhitespace (flines ! (s - 2)))
           \<and> (b = 1 \<longrightarrow> e < length flines \<and> isSubstantive (last dst)
                  \<and> isSubstantive (flines ! e)
                  \<and> stripAllWhitespace (last dst) = stripAllWhitespace (flines ! e))"
proof (cases "int (length dst) \<le> int e - int s + 1")
  case True
  then have "stripRangeBoundaryEcho flines s e dst = dst"
    by (simp add: stripRangeBoundaryEcho_def)
  then show ?thesis by (intro exI[of _ 0]) simp
next
  case False
  define L where "L = (s \<ge> 2 \<and> isSubstantive (dst ! 0) \<and> isSubstantive (flines ! (s - 2))
                      \<and> vibeCheck (dst ! 0) (flines ! (s - 2)))"
  define out1 where "out1 = (if L then drop 1 dst else dst)"
  define T where "T = (e < length flines \<and> length out1 > 0
                      \<and> isSubstantive (out1 ! (length out1 - 1)) \<and> isSubstantive (flines ! e)
                      \<and> vibeCheck (out1 ! (length out1 - 1)) (flines ! e))"
  have res: "stripRangeBoundaryEcho flines s e dst
               = (if T then take (length out1 - 1) out1 else out1)"
  proof -
    have c: "\<not> (length dst \<le> 1 \<or> int (length dst) \<le> int e - int s + 1)"
      using False assms by simp
    show ?thesis
      unfolding stripRangeBoundaryEcho_def Let_def L_def out1_def T_def
      using c by (simp only: if_False)
  qed
  have ne: "out1 \<noteq> []" using assms by (auto simp: out1_def)
  have "last out1 = last dst" using assms by (simp add: out1_def last_drop)
  then have lastout: "out1 ! (length out1 - 1) = last dst"
    using ne by (simp add: last_conv_nth)
  define a :: nat where "a = (if L then 1 else 0)"
  define b :: nat where "b = (if T then 1 else 0)"
  have o1: "out1 = drop a dst" by (simp add: out1_def a_def)
  have f1: "stripRangeBoundaryEcho flines s e dst = take (length dst - a - b) (drop a dst)"
    using res o1 by (simp add: b_def)
  have f2: "a = 1 \<longrightarrow> s \<ge> 2 \<and> isSubstantive (dst ! 0) \<and> isSubstantive (flines ! (s - 2))
                  \<and> stripAllWhitespace (dst ! 0) = stripAllWhitespace (flines ! (s - 2))"
    by (simp add: a_def L_def vibeCheck_iff)
  have f3: "b = 1 \<longrightarrow> e < length flines \<and> isSubstantive (last dst)
                  \<and> isSubstantive (flines ! e)
                  \<and> stripAllWhitespace (last dst) = stripAllWhitespace (flines ! e)"
    using lastout by (simp add: b_def T_def vibeCheck_iff)
  have f4: "a \<le> 1" and f5: "b \<le> 1" by (simp_all add: a_def b_def)
  show ?thesis
    by (rule exI[of _ a], rule exI[of _ b]) (intro conjI f1 f2 f3 f4 f5)
qed

lemma take_drop_forms:
  fixes dst :: "'a list"
  assumes "a \<le> 1" "b \<le> 1"
  shows "take (length dst - a - b) (drop a dst)
           = (if a = 0 \<and> b = 0 then dst else if a = 0 then butlast dst
              else if b = 0 then tl dst else butlast (tl dst))"
proof -
  have a: "a = 0 \<or> a = Suc 0" using assms(1) by arith
  have b: "b = 0 \<or> b = Suc 0" using assms(2) by arith
  have c4: "take (length dst - Suc 0 - Suc 0) (drop (Suc 0) dst) = butlast (tl dst)"
    by (simp add: butlast_conv_take drop_Suc)
  have c3: "take (length dst - Suc 0 - 0) (drop (Suc 0) dst) = tl dst"
    by (simp add: drop_Suc)
  have c2: "take (length dst - 0 - Suc 0) (drop 0 dst) = butlast dst"
    by (simp add: butlast_conv_take)
  from a b show ?thesis
  proof (elim disjE)
    assume "a = 0" "b = 0" then show ?thesis by simp
  next
    assume "a = 0" "b = Suc 0" then show ?thesis using c2 by simp
  next
    assume "a = Suc 0" "b = 0" then show ?thesis using c3 by simp
  next
    assume "a = Suc 0" "b = Suc 0" then show ?thesis using c4 by simp
  qed
qed

lemma stripInsertAnchorEchoAfter_cases:
  "stripInsertAnchorEchoAfter anchorLine dst = dst
   \<or> (stripInsertAnchorEchoAfter anchorLine dst = tl dst \<and> 2 \<le> length dst
        \<and> isSubstantive anchorLine \<and> isSubstantive (dst ! 0)
        \<and> stripAllWhitespace (dst ! 0) = stripAllWhitespace anchorLine)"
  by (auto simp: stripInsertAnchorEchoAfter_def vibeCheck_iff drop_Suc)

text \<open>
  Claim C6. Boundary-echo stripping never treats a blank line as an echo. The result of
  \<open>stripRangeBoundaryEcho\<close> is the replacement without its first line, its last line,
  both or neither; the first line goes only if it and the line before the span are
  non-blank and equal up to whitespace, the last line only if it and the line after the
  span are non-blank and equal up to whitespace. If the first replacement line or the line
  before the span is blank, the first line stays; likewise for the last line. The anchor
  echo of \<open>insert_after\<close> is stripped only between two non-blank lines too.
\<close>

theorem echo_stripping_excludes_blank_lines:
  "(\<exists>a b. a \<le> 1 \<and> b \<le> 1
       \<and> stripRangeBoundaryEcho flines s e dst = take (length dst - a - b) (drop a dst)
       \<and> (a = 1 \<longrightarrow> s \<ge> 2 \<and> isSubstantive (dst ! 0) \<and> isSubstantive (flines ! (s - 2))
              \<and> stripAllWhitespace (dst ! 0) = stripAllWhitespace (flines ! (s - 2)))
       \<and> (b = 1 \<longrightarrow> e < length flines \<and> isSubstantive (last dst)
              \<and> isSubstantive (flines ! e)
              \<and> stripAllWhitespace (last dst) = stripAllWhitespace (flines ! e)))
   \<and> (\<not> isSubstantive (dst ! 0) \<or> s < 2 \<or> \<not> isSubstantive (flines ! (s - 2))
        \<longrightarrow> stripRangeBoundaryEcho flines s e dst = dst
            \<or> stripRangeBoundaryEcho flines s e dst = butlast dst)
   \<and> (\<not> isSubstantive (last dst) \<or> length flines \<le> e \<or> \<not> isSubstantive (flines ! e)
        \<longrightarrow> stripRangeBoundaryEcho flines s e dst = dst
            \<or> stripRangeBoundaryEcho flines s e dst = tl dst)
   \<and> (\<not> isSubstantive anchorLine \<or> \<not> isSubstantive (dst ! 0)
        \<longrightarrow> stripInsertAnchorEchoAfter anchorLine dst = dst)
   \<and> (stripInsertAnchorEchoAfter anchorLine dst \<noteq> dst
        \<longrightarrow> stripInsertAnchorEchoAfter anchorLine dst = tl dst
            \<and> isSubstantive anchorLine \<and> isSubstantive (dst ! 0)
            \<and> stripAllWhitespace (dst ! 0) = stripAllWhitespace anchorLine)"
proof -
  have ex: "\<exists>a b. a \<le> 1 \<and> b \<le> 1
       \<and> stripRangeBoundaryEcho flines s e dst = take (length dst - a - b) (drop a dst)
       \<and> (a = 1 \<longrightarrow> s \<ge> 2 \<and> isSubstantive (dst ! 0) \<and> isSubstantive (flines ! (s - 2))
              \<and> stripAllWhitespace (dst ! 0) = stripAllWhitespace (flines ! (s - 2)))
       \<and> (b = 1 \<longrightarrow> e < length flines \<and> isSubstantive (last dst)
              \<and> isSubstantive (flines ! e)
              \<and> stripAllWhitespace (last dst) = stripAllWhitespace (flines ! e))"
  proof (cases "2 \<le> length dst")
    case True then show ?thesis by (rule stripRangeBoundaryEcho_cases)
  next
    case False
    then have "stripRangeBoundaryEcho flines s e dst = dst"
      by (simp add: stripRangeBoundaryEcho_short)
    then show ?thesis by (intro exI[of _ 0]) simp
  qed
  then obtain a b where ab: "a \<le> 1" "b \<le> 1"
    and eq: "stripRangeBoundaryEcho flines s e dst = take (length dst - a - b) (drop a dst)"
    and la: "a = 1 \<longrightarrow> s \<ge> 2 \<and> isSubstantive (dst ! 0) \<and> isSubstantive (flines ! (s - 2))"
    and lb: "b = 1 \<longrightarrow> e < length flines \<and> isSubstantive (last dst) \<and> isSubstantive (flines ! e)"
    by blast
  have forms: "stripRangeBoundaryEcho flines s e dst
           = (if a = 0 \<and> b = 0 then dst else if a = 0 then butlast dst
              else if b = 0 then tl dst else butlast (tl dst))"
    unfolding eq by (rule take_drop_forms[OF ab])
  have lead: "\<not> isSubstantive (dst ! 0) \<or> s < 2 \<or> \<not> isSubstantive (flines ! (s - 2))
        \<longrightarrow> stripRangeBoundaryEcho flines s e dst = dst
            \<or> stripRangeBoundaryEcho flines s e dst = butlast dst"
  proof
    assume "\<not> isSubstantive (dst ! 0) \<or> s < 2 \<or> \<not> isSubstantive (flines ! (s - 2))"
    with la ab have "a = 0" by auto
    with forms show "stripRangeBoundaryEcho flines s e dst = dst
            \<or> stripRangeBoundaryEcho flines s e dst = butlast dst" by auto
  qed
  have trail: "\<not> isSubstantive (last dst) \<or> length flines \<le> e \<or> \<not> isSubstantive (flines ! e)
        \<longrightarrow> stripRangeBoundaryEcho flines s e dst = dst
            \<or> stripRangeBoundaryEcho flines s e dst = tl dst"
  proof
    assume "\<not> isSubstantive (last dst) \<or> length flines \<le> e \<or> \<not> isSubstantive (flines ! e)"
    with lb ab have "b = 0" by auto
    with forms show "stripRangeBoundaryEcho flines s e dst = dst
            \<or> stripRangeBoundaryEcho flines s e dst = tl dst" by auto
  qed
  have ins1: "\<not> isSubstantive anchorLine \<or> \<not> isSubstantive (dst ! 0)
        \<longrightarrow> stripInsertAnchorEchoAfter anchorLine dst = dst"
    using stripInsertAnchorEchoAfter_cases[of anchorLine dst] by blast
  have ins2: "stripInsertAnchorEchoAfter anchorLine dst \<noteq> dst
        \<longrightarrow> stripInsertAnchorEchoAfter anchorLine dst = tl dst
            \<and> isSubstantive anchorLine \<and> isSubstantive (dst ! 0)
            \<and> stripAllWhitespace (dst ! 0) = stripAllWhitespace anchorLine"
    using stripInsertAnchorEchoAfter_cases[of anchorLine dst] by blast
  show ?thesis by (intro conjI ex lead trail ins1 ins2)
qed

lemmas ws_defs = isSubstantive_def trim_def trimStart_def trimEnd_def isSpace_def js_def
  stripAllWhitespace_def

theorem echo_stripping_excludes_blank_lines_witness:
  "\<not> isSubstantive ([[], js ''new'', []] ! 0)
   \<and> \<not> isSubstantive (last [[], js ''new'', []])
   \<and> \<not> isSubstantive (js ''  '')
   \<and> stripRangeBoundaryEcho [js ''aaa'', [], js ''old'', [], js ''zzz''] 3 3
        [[], js ''new'', []] = [[], js ''new'', []]
   \<and> stripInsertAnchorEchoAfter (js ''  '') [[], js ''new'', []] = [[], js ''new'', []]"
proof -
  have b1: "\<not> isSubstantive ([[], js ''new'', []] ! 0)" by (simp add: ws_defs)
  have b2: "\<not> isSubstantive (last [[], js ''new'', []])" by (simp add: ws_defs)
  have b3: "\<not> isSubstantive (js ''  '')" by (simp add: ws_defs)
  have ne: "butlast [[], js ''new'', []] \<noteq> tl [[], js ''new'', []]"
    by (simp add: js_def)
  note T = echo_stripping_excludes_blank_lines
         [of "[js ''aaa'', [], js ''old'', [], js ''zzz'']" 3 3
             "[[], js ''new'', []]" "js ''  ''"]
  have A: "stripRangeBoundaryEcho [js ''aaa'', [], js ''old'', [], js ''zzz''] 3 3 [[], js ''new'', []]
             = [[], js ''new'', []]
           \<or> stripRangeBoundaryEcho [js ''aaa'', [], js ''old'', [], js ''zzz''] 3 3 [[], js ''new'', []]
             = butlast [[], js ''new'', []]"
    by (rule mp[OF T[THEN conjunct2, THEN conjunct1]]) (rule disjI1, rule b1)
  have B: "stripRangeBoundaryEcho [js ''aaa'', [], js ''old'', [], js ''zzz''] 3 3 [[], js ''new'', []]
             = [[], js ''new'', []]
           \<or> stripRangeBoundaryEcho [js ''aaa'', [], js ''old'', [], js ''zzz''] 3 3 [[], js ''new'', []]
             = tl [[], js ''new'', []]"
    by (rule mp[OF T[THEN conjunct2, THEN conjunct2, THEN conjunct1]]) (rule disjI1, rule b2)
  have C: "stripInsertAnchorEchoAfter (js ''  '') [[], js ''new'', []] = [[], js ''new'', []]"
    by (rule mp[OF T[THEN conjunct2, THEN conjunct2, THEN conjunct2, THEN conjunct1]])
       (rule disjI1, rule b3)
  from A B ne
  have D: "stripRangeBoundaryEcho [js ''aaa'', [], js ''old'', [], js ''zzz''] 3 3 [[], js ''new'', []]
             = [[], js ''new'', []]"
    by (elim disjE) simp_all
  show ?thesis by (intro conjI b1 b2 b3 C D)
qed

section \<open>Results on batches of anchored edits\<close>

subsection \<open>A batch of one edit\<close>

lemma spec_annotate [simp]: "spec (annotate p i) = spec p"
  by (simp add: annotate_def split: ParsedRefs.splits)

lemma dstLines_annotate [simp]: "dstLines (annotate p i) = dstLines p"
  by (simp add: annotate_def split: ParsedRefs.splits)

lemma idx_annotate [simp]: "idx (annotate p i) = i"
  by (simp add: annotate_def split: ParsedRefs.splits)

lemma applyHashlineEdits_single:
  assumes "parseHashlineEdit e = Inr (sp, dst)"
    and "validateEdit xxh (splitLF c) \<lparr>spec = sp, dstLines = stripNewLinePrefixes (splitDstLines dst)\<rparr>
           = Inr (p', [])"
  shows "applyHashlineEdits xxh c [e]
           = Inr (singleResult (splitLF c)
                   (applyEdit (splitLF c) (collectExplicitlyTouchedLines [p'])
                      \<lparr>fileLines = splitLF c, firstChangedLine = None, noopEdits = []\<rparr>
                      (annotate p' 0)))"
  using assms
  by (simp add: applyHashlineEdits_def Let_def sortEdits_def singleResult_def)

subsection \<open>An empty insertion is rejected\<close>

lemma stripNewLinePrefixes_Nil [simp]: "stripNewLinePrefixes [] = []"
  by (simp add: stripNewLinePrefixes_def)

lemma parseEdits_insert_empty:
  "InsertAfterEdit a [] \<in> set es \<Longrightarrow> parseEdits es = Inr ps
     \<Longrightarrow> \<exists>p \<in> set ps. (\<exists>r. spec p = InsertAfter r) \<and> dstLines p = []"
proof (induction es arbitrary: ps)
  case Nil then show ?case by simp
next
  case (Cons e es)
  from Cons.prems(2) obtain sp dst qs where
    pe: "parseHashlineEdit e = Inr (sp, dst)" and pq: "parseEdits es = Inr qs"
    and ps: "ps = \<lparr>spec = sp, dstLines = stripNewLinePrefixes (splitDstLines dst)\<rparr> # qs"
    by (auto split: sum.splits)
  show ?case
  proof (cases "e = InsertAfterEdit a []")
    case True
    with pe have "(\<exists>r. sp = InsertAfter r) \<and> dst = []"
      by (auto simp: parseHashlineEdit_def split: sum.splits)
    with ps show ?thesis by (auto simp: splitDstLines_def)
  next
    case False
    with Cons.prems(1) have "InsertAfterEdit a [] \<in> set es" by simp
    from Cons.IH[OF this pq] ps show ?thesis by auto
  qed
qed

lemma validateAll_insert_empty:
  "\<exists>p \<in> set ps. (\<exists>r. spec p = InsertAfter r) \<and> dstLines p = []
     \<Longrightarrow> \<exists>err. validateAll xxh flines ps = Inl err"
proof (induction ps)
  case Nil then show ?case by simp
next
  case (Cons p ps)
  show ?case
  proof (cases "(\<exists>r. spec p = InsertAfter r) \<and> dstLines p = []")
    case True
    then have "validateEdit xxh flines p = Inl InsertAfterRequiresNonEmpty"
      by (auto simp: validateEdit_def)
    then show ?thesis by simp
  next
    case False
    with Cons.prems have "\<exists>q \<in> set ps. (\<exists>r. spec q = InsertAfter r) \<and> dstLines q = []" by auto
    from Cons.IH[OF this] show ?thesis by (auto split: sum.splits)
  qed
qed

lemma applyHashlineEdits_insert_empty:
  assumes "InsertAfterEdit a [] \<in> set es"
  shows "\<exists>err. applyHashlineEdits xxh c es = Inl err"
proof (cases "parseEdits es")
  case (Inl err)
  with assms show ?thesis by (auto simp: applyHashlineEdits_def)
next
  case (Inr ps)
  from validateAll_insert_empty[OF parseEdits_insert_empty[OF assms Inr]]
  obtain err where "validateAll xxh (splitLF c) ps = Inl err" by blast
  with Inr assms show ?thesis by (auto simp: applyHashlineEdits_def Let_def)
qed

lemma edit_file_anchor_error:
  assumes "applyHashlineEdits xxh (normalizeToLF (bomText (stripBom raw)))
             (filter (\<lambda>e. \<not> isReplaceEdit e) es) = Inl err"
  shows "edit_file xxh rt raw es = Some (Inl err)"
    and "fileAfter raw (edit_file xxh rt raw es) = raw"
  using assms by (simp_all add: edit_file_def Let_def fileAfter_def)


subsection \<open>The echoed anchor of an insertion\<close>

lemma isSubstantive_iff: "isSubstantive l = (\<exists>c \<in> set l. \<not> isSpace c)"
proof -
  have a: "(dropWhile isSpace l = []) = (\<forall>c \<in> set l. isSpace c)"
    by (rule dropWhile_eq_Nil_conv)
  have b: "(dropWhile isSpace (rev (dropWhile isSpace l)) = []) = (dropWhile isSpace l = [])"
  proof (cases "dropWhile isSpace l")
    case Nil then show ?thesis by (simp only: rev.simps dropWhile.simps)
  next
    case (Cons x xs)
    then have "\<not> isSpace x" by (metis hd_dropWhile list.sel(1) list.distinct(1))
    then have "\<exists>c \<in> set (rev (x # xs)). \<not> isSpace c" by auto
    then have "dropWhile isSpace (rev (x # xs)) \<noteq> []"
      unfolding dropWhile_eq_Nil_conv by blast
    with Cons show ?thesis by simp
  qed
  show ?thesis
    unfolding isSubstantive_def trim_def trimEnd_def trimStart_def
    using a b by auto
qed

lemma isSubstantive_strip: "isSubstantive l = (stripAllWhitespace l \<noteq> [])"
  by (auto simp: isSubstantive_iff stripAllWhitespace_def filter_empty_conv)

lemma insert_after_echo_single:
  assumes pr: "parseLineRef anchor = Inr ref"
    and vr: "validateOrRelocateRef xxh (splitLF c) ref = Inr (ref', st, [])"
    and D: "D = stripNewLinePrefixes (splitDstLines txt)"
    and len: "2 \<le> length D"
    and sub: "isSubstantive (D ! 0)"
    and eq: "stripAllWhitespace (D ! 0) = stripAllWhitespace (splitLF c ! (line ref' - 1))"
  shows "applyHashlineEdits xxh c [InsertAfterEdit anchor txt]
           = Inr (singleResult (splitLF c)
                   \<lparr>fileLines = take (line ref') (splitLF c) @ tl D @ drop (line ref') (splitLF c),
                    firstChangedLine = Some (line ref' + 1), noopEdits = []\<rparr>)"
proof -
  have pe: "parseHashlineEdit (InsertAfterEdit anchor txt) = Inr (InsertAfter ref, txt)"
    using pr by (simp add: parseHashlineEdit_def)
  have ve: "validateEdit xxh (splitLF c) \<lparr>spec = InsertAfter ref, dstLines = stripNewLinePrefixes (splitDstLines txt)\<rparr>
              = Inr (\<lparr>spec = InsertAfter ref', dstLines = D\<rparr>, [])"
  proof -
    have "length (stripNewLinePrefixes (splitDstLines txt)) \<noteq> 0" using len D by auto
    then show ?thesis using vr D by (simp add: validateEdit_def)
  qed
  have sub2: "isSubstantive (splitLF c ! (line ref' - 1))"
    using sub eq by (simp add: isSubstantive_strip)
  have strip: "stripInsertAnchorEchoAfter (splitLF c ! (line ref' - 1)) D = tl D"
    using len sub sub2 eq by (simp add: stripInsertAnchorEchoAfter_def vibeCheck_def drop_Suc)
  have ap: "applyEdit (splitLF c) (collectExplicitlyTouchedLines [\<lparr>spec = InsertAfter ref', dstLines = D\<rparr>])
              \<lparr>fileLines = splitLF c, firstChangedLine = None, noopEdits = []\<rparr>
              (annotate \<lparr>spec = InsertAfter ref', dstLines = D\<rparr> 0)
            = \<lparr>fileLines = take (line ref') (splitLF c) @ tl D @ drop (line ref') (splitLF c),
               firstChangedLine = Some (line ref' + 1), noopEdits = []\<rparr>"
  proof -
    have "tl D \<noteq> []" using len by (cases D; cases "tl D") auto
    then show ?thesis
      using strip by (simp add: applyEdit_def Let_def splice_def trackFirstChanged_def)
  qed
  show ?thesis
    using applyHashlineEdits_single[OF pe ve] ap by simp
qed


subsection \<open>Fingerprints of some concrete lines\<close>

lemmas xx_defs = xxHash32_def xxh32_def xxAvalanche_def rotl32_def read32le_def utf8Bytes_def
  PRIME32_1_def PRIME32_2_def PRIME32_3_def PRIME32_4_def PRIME32_5_def

lemma xx_aaa: "xxHash32 [0x61, 0x61, 0x61] = 837506399" by (simp add: xx_defs)
lemma xx_bbb: "xxHash32 [0x62, 0x62, 0x62] = 409707623" by (simp add: xx_defs)
lemma xx_ccc: "xxHash32 [0x63, 0x63, 0x63] = 1071946752" by (simp add: xx_defs)
lemma xx_zzz: "xxHash32 [0x7A, 0x7A, 0x7A] = 2527212048" by (simp add: xx_defs)

lemmas str_defs = js_def LF_def CR_def isSpace_def isDigit_def isAlnum_def isLineTerminator_def
  trim_def trimStart_def trimEnd_def joinLF_def

lemmas parse_defs = parseLineRef_def normalizeColon_def matchLineRef_def parseDecimal_def
  HASH_LEN_def parseHashlineEdit_def splitDstLines_def stripNewLinePrefixes_def
  matchHashlinePrefix_def matchesDiffPlus_def

lemmas hash_defs = computeLineHash_eq hexDigit_def stripAllWhitespace_def stripTrailingCR_def
  xx_aaa xx_bbb xx_ccc xx_zzz

lemmas validate_defs = validateEdit_def validateOrRelocateRef_def uniqueLineByHash_def
  toLowerCase_def relocatedStatus_def buildMismatch_def

lemmas apply_defs = collectExplicitlyTouchedLines_def dstKey_def lineKey_def annotate_def
  sortEdits_def editBefore_def applyEdit_def maybeExpandSingleLineMerge_def
  resolveReplacement_def slice_def splice_def stripRangeBoundaryEcho_def
  restoreOldWrappedLines_def restoreIndentForPairedReplacement_def restoreLeadingIndent_def
  leadingWhitespace_def hyphenFallback_def isConfusableHyphen_def recordNoop_def refLoc_def
  trackFirstChanged_def diffLineCount_def stripTrailingContinuationTokens_def
  stripMergeOperatorChars_def continuationChars_def indexOf_def isSubstantive_def vibeCheck_def
  stripInsertAnchorEchoAfter_def normalizeConfusableHyphensInLines_def
  normalizeConfusableHyphens_def singleResult_def

text \<open>
  Claim C7, amended. For an \<open>insert_after\<close> edit whose anchor validates (at the line
  \<open>line ref'\<close>, relocated or not) and whose replacement has at least two lines, the first
  of them non-blank and equal to the anchor line up to whitespace, the first line is
  dropped and the remaining lines are inserted right after the anchor line. A batch that
  contains an \<open>insert_after\<close> edit with empty text is rejected with an error, and the
  file stays as it was.
\<close>

theorem insert_after_drops_echo_and_rejects_empty:
  "(parseLineRef anchor = Inr ref
      \<and> validateOrRelocateRef xxh (splitLF c) ref = Inr (ref', st, [])
      \<and> 2 \<le> length (stripNewLinePrefixes (splitDstLines txt))
      \<and> isSubstantive (stripNewLinePrefixes (splitDstLines txt) ! 0)
      \<and> stripAllWhitespace (stripNewLinePrefixes (splitDstLines txt) ! 0)
            = stripAllWhitespace (splitLF c ! (line ref' - 1))
    \<longrightarrow> applyHashlineEdits xxh c [InsertAfterEdit anchor txt]
          = Inr (singleResult (splitLF c)
                  \<lparr>fileLines = take (line ref') (splitLF c)
                                 @ tl (stripNewLinePrefixes (splitDstLines txt))
                                 @ drop (line ref') (splitLF c),
                   firstChangedLine = Some (line ref' + 1), noopEdits = []\<rparr>))
   \<and> (InsertAfterEdit a [] \<in> set es
        \<longrightarrow> (\<exists>err. applyHashlineEdits xxh c es = Inl err)
            \<and> (\<exists>err. edit_file xxh rt raw es = Some (Inl err))
            \<and> fileAfter raw (edit_file xxh rt raw es) = raw)"
proof (intro conjI impI)
  assume "parseLineRef anchor = Inr ref
      \<and> validateOrRelocateRef xxh (splitLF c) ref = Inr (ref', st, [])
      \<and> 2 \<le> length (stripNewLinePrefixes (splitDstLines txt))
      \<and> isSubstantive (stripNewLinePrefixes (splitDstLines txt) ! 0)
      \<and> stripAllWhitespace (stripNewLinePrefixes (splitDstLines txt) ! 0)
            = stripAllWhitespace (splitLF c ! (line ref' - 1))"
  then show "applyHashlineEdits xxh c [InsertAfterEdit anchor txt]
          = Inr (singleResult (splitLF c)
                  \<lparr>fileLines = take (line ref') (splitLF c)
                                 @ tl (stripNewLinePrefixes (splitDstLines txt))
                                 @ drop (line ref') (splitLF c),
                   firstChangedLine = Some (line ref' + 1), noopEdits = []\<rparr>)"
    using insert_after_echo_single[OF _ _ refl] by blast
next
  assume m: "InsertAfterEdit a [] \<in> set es"
  show "\<exists>err. applyHashlineEdits xxh c es = Inl err"
    by (rule applyHashlineEdits_insert_empty[OF m])
  have "InsertAfterEdit a [] \<in> set (filter (\<lambda>e. \<not> isReplaceEdit e) es)"
    using m by (simp add: isReplaceEdit_def)
  from applyHashlineEdits_insert_empty[OF this]
  obtain err where "applyHashlineEdits xxh (normalizeToLF (bomText (stripBom raw)))
             (filter (\<lambda>e. \<not> isReplaceEdit e) es) = Inl err" by blast
  from edit_file_anchor_error[OF this]
  show "\<exists>err. edit_file xxh rt raw es = Some (Inl err)"
    and "fileAfter raw (edit_file xxh rt raw es) = raw" by blast+
qed

theorem insert_after_drops_echo_and_rejects_empty_witness:
  "parseLineRef (js ''1:5f'') = Inr \<lparr>line = 1, hash = js ''5f''\<rparr>
   \<and> validateOrRelocateRef xxHash32 (splitLF (joinLF [js ''aaa'', js ''bbb'']))
         \<lparr>line = 1, hash = js ''5f''\<rparr> = Inr (\<lparr>line = 1, hash = js ''5f''\<rparr>, Ok False, [])
   \<and> stripNewLinePrefixes (splitDstLines (joinLF [js ''aaa'', js ''X''])) = [js ''aaa'', js ''X'']
   \<and> isSubstantive (js ''aaa'')
   \<and> applyHashlineEdits xxHash32 (joinLF [js ''aaa'', js ''bbb''])
         [InsertAfterEdit (js ''1:5f'') (joinLF [js ''aaa'', js ''X''])]
       = Inr \<lparr>content = joinLF [js ''aaa'', js ''X'', js ''bbb''], resultFirstChangedLine = Some 2,
              warnings = [], resultNoopEdits = []\<rparr>
   \<and> InsertAfterEdit (js ''1:5f'') [] \<in> set [InsertAfterEdit (js ''1:5f'') []]
   \<and> applyHashlineEdits xxHash32 (joinLF [js ''aaa'', js ''bbb'']) [InsertAfterEdit (js ''1:5f'') []]
       = Inl InsertAfterRequiresNonEmpty"
proof -
  have p: "parseLineRef (js ''1:5f'') = Inr \<lparr>line = 1, hash = js ''5f''\<rparr>"
    by (simp add: parse_defs str_defs)
  have sl: "splitLF (joinLF [js ''aaa'', js ''bbb'']) = [js ''aaa'', js ''bbb'']"
    by (simp add: str_defs)
  have v: "validateOrRelocateRef xxHash32 (splitLF (joinLF [js ''aaa'', js ''bbb'']))
         \<lparr>line = 1, hash = js ''5f''\<rparr> = Inr (\<lparr>line = 1, hash = js ''5f''\<rparr>, Ok False, [])"
    unfolding sl by (simp add: validate_defs hash_defs str_defs)
  have d: "stripNewLinePrefixes (splitDstLines (joinLF [js ''aaa'', js ''X''])) = [js ''aaa'', js ''X'']"
    by (simp add: parse_defs str_defs)
  have s: "isSubstantive (js ''aaa'')" by (simp add: apply_defs str_defs)
  have m: "InsertAfterEdit (js ''1:5f'') [] \<in> set [InsertAfterEdit (js ''1:5f'') []]" by simp
  note T = insert_after_drops_echo_and_rejects_empty
             [of "js ''1:5f''" "\<lparr>line = 1, hash = js ''5f''\<rparr>" xxHash32
                 "joinLF [js ''aaa'', js ''bbb'']" "\<lparr>line = 1, hash = js ''5f''\<rparr>" "Ok False"
                 "joinLF [js ''aaa'', js ''X'']" "js ''1:5f''" "[InsertAfterEdit (js ''1:5f'') []]"]
  have a1: "applyHashlineEdits xxHash32 (joinLF [js ''aaa'', js ''bbb''])
         [InsertAfterEdit (js ''1:5f'') (joinLF [js ''aaa'', js ''X''])]
       = Inr \<lparr>content = joinLF [js ''aaa'', js ''X'', js ''bbb''], resultFirstChangedLine = Some 2,
              warnings = [], resultNoopEdits = []\<rparr>"
    using T[THEN conjunct1] p v s unfolding d sl
    by (simp add: singleResult_def diffLineCount_def stripAllWhitespace_def js_def isSpace_def)
  have a2: "applyHashlineEdits xxHash32 (joinLF [js ''aaa'', js ''bbb'']) [InsertAfterEdit (js ''1:5f'') []]
       = Inl InsertAfterRequiresNonEmpty"
    using p by (simp add: applyHashlineEdits_def parseHashlineEdit_def splitDstLines_def validateEdit_def)
  show ?thesis by (intro conjI p v d s a1 m a2)
qed

text \<open>
  As stated, claim C7 fails for a replacement of one line: its first line is non-blank and
  equal to the anchor line, yet it is inserted, not dropped.
\<close>

theorem insert_after_single_line_echo_counterexample:
  "isSubstantive (js ''aaa'')
   \<and> stripAllWhitespace (js ''aaa'') = stripAllWhitespace (splitLF (joinLF [js ''aaa'', js ''bbb'']) ! 0)
   \<and> applyHashlineEdits xxHash32 (joinLF [js ''aaa'', js ''bbb''])
         [InsertAfterEdit (js ''1:5f'') (js ''aaa'')]
       = Inr \<lparr>content = joinLF [js ''aaa'', js ''aaa'', js ''bbb''], resultFirstChangedLine = Some 2,
              warnings = [], resultNoopEdits = []\<rparr>"
  by (simp add: applyHashlineEdits_def str_defs parse_defs hash_defs validate_defs apply_defs Let_def)

subsection \<open>The index of unique fingerprints\<close>

lemma indexHashes_lookup:
  "dom u \<inter> d = {} \<Longrightarrow>
   fst (indexHashes xxh ls n (u, d)) h
     = (if h \<in> d then None
        else (case u h of
                Some l \<Rightarrow> if linesWithHash xxh h ls n = [] then Some l else None
              | None \<Rightarrow> (case linesWithHash xxh h ls n of [k] \<Rightarrow> Some k | _ \<Rightarrow> None)))"
proof (induction ls arbitrary: u d n)
  case Nil
  then show ?case by (auto split: option.splits)
next
  case (Cons l ls)
  let ?g = "computeLineHash xxh l"
  show ?case
  proof (cases "?g \<in> d")
    case True
    have st: "indexHashes xxh (l # ls) n (u, d) = indexHashes xxh ls (Suc n) (u, d)"
      using True by (simp add: Let_def)
    show ?thesis
    proof (cases "h \<in> d")
      case True
      then show ?thesis unfolding st Cons.IH[OF Cons.prems] by simp
    next
      case False
      with True have ne: "?g \<noteq> h" by auto
      show ?thesis unfolding st Cons.IH[OF Cons.prems]
        using False ne by (cases "u h") simp_all
    qed
  next
    case False
    show ?thesis
    proof (cases "u ?g")
      case None
      have st: "indexHashes xxh (l # ls) n (u, d) = indexHashes xxh ls (Suc n) (u(?g \<mapsto> n), d)"
        using False None by (simp add: Let_def)
      have dj: "dom (u(?g \<mapsto> n)) \<inter> d = {}" using Cons.prems False by auto
      show ?thesis
      proof (cases "?g = h")
        case True
        then show ?thesis unfolding st Cons.IH[OF dj]
          using False None by (auto split: list.splits)
      next
        case ne: False
        show ?thesis unfolding st Cons.IH[OF dj]
          using ne by (cases "u h") simp_all
      qed
    next
      case (Some l')
      have st: "indexHashes xxh (l # ls) n (u, d)
                  = indexHashes xxh ls (Suc n) (u(?g := None), insert ?g d)"
        using False Some by (simp add: Let_def)
      have dj: "dom (u(?g := None)) \<inter> insert ?g d = {}" using Cons.prems by auto
      show ?thesis
      proof (cases "?g = h")
        case True
        then show ?thesis unfolding st Cons.IH[OF dj]
          using False Some by auto
      next
        case ne: False
        show ?thesis unfolding st Cons.IH[OF dj]
          using ne by (cases "u h") simp_all
      qed
    qed
  qed
qed

lemma uniqueLineByHash_lookup:
  "uniqueLineByHash xxh flines h
     = (case linesWithHash xxh h flines 1 of [k] \<Rightarrow> Some k | _ \<Rightarrow> None)"
  by (simp add: uniqueLineByHash_def indexHashes_lookup)

lemma validateOrRelocateRef_relocates:
  assumes "1 \<le> line ref" "line ref \<le> length flines"
    and "computeLineHash xxh (flines ! (line ref - 1)) \<noteq> toLowerCase (hash ref)"
    and "linesWithHash xxh (toLowerCase (hash ref)) flines 1 = [k]"
  shows "validateOrRelocateRef xxh flines ref = Inr (ref\<lparr>line := k\<rparr>, Ok True, [])"
  using assms by (simp add: validateOrRelocateRef_def uniqueLineByHash_lookup Let_def)

lemma validateOrRelocateRef_mismatch:
  assumes "1 \<le> line ref" "line ref \<le> length flines"
    and "computeLineHash xxh (flines ! (line ref - 1)) \<noteq> toLowerCase (hash ref)"
    and "length (linesWithHash xxh (toLowerCase (hash ref)) flines 1) \<noteq> 1"
  shows "validateOrRelocateRef xxh flines ref
           = Inr (ref, NotOk, [\<lparr>mismatchLine = line ref, expected = hash ref,
                                 actual = computeLineHash xxh (flines ! (line ref - 1))\<rparr>])"
proof -
  have "(case linesWithHash xxh (toLowerCase (hash ref)) flines 1 of [k] \<Rightarrow> Some k | _ \<Rightarrow> None) = None"
    using assms(4) by (auto split: list.splits)
  then show ?thesis
    using assms(1-3) by (simp add: validateOrRelocateRef_def uniqueLineByHash_lookup Let_def)
qed

lemma validateOrRelocateRef_accepts:
  assumes "1 \<le> line ref" "line ref \<le> length flines"
    and "computeLineHash xxh (flines ! (line ref - 1)) = toLowerCase (hash ref)"
  shows "validateOrRelocateRef xxh flines ref = Inr (ref, Ok False, [])"
  using assms by (simp add: validateOrRelocateRef_def Let_def)


lemma linesWithHash_mem:
  "k \<in> set (linesWithHash xxh h ls n)
     \<Longrightarrow> n \<le> k \<and> k < n + length ls \<and> computeLineHash xxh (ls ! (k - n)) = h"
proof (induction ls arbitrary: n)
  case Nil then show ?case by simp
next
  case (Cons l ls)
  show ?case
  proof (cases "k = n \<and> computeLineHash xxh l = h")
    case True then show ?thesis by simp
  next
    case False
    with Cons.prems have "k \<in> set (linesWithHash xxh h ls (Suc n))" by (auto split: if_splits)
    from Cons.IH[OF this] have "Suc n \<le> k" "k < Suc n + length ls"
      "computeLineHash xxh (ls ! (k - Suc n)) = h" by auto
    moreover from \<open>Suc n \<le> k\<close> have "k - n = Suc (k - Suc n)" by arith
    then have "(l # ls) ! (k - n) = ls ! (k - Suc n)" by simp
    ultimately show ?thesis by simp
  qed
qed

lemma validateEdit_range_discarded:
  assumes lt: "line s < line e" and s1: "1 \<le> line s" and e1: "line e \<le> length flines"
    and sm: "computeLineHash xxh (flines ! (line s - 1)) \<noteq> toLowerCase (hash s)"
    and su: "linesWithHash xxh (toLowerCase (hash s)) flines 1 = [k]"
    and em: "computeLineHash xxh (flines ! (line e - 1)) = toLowerCase (hash e)"
  shows "validateEdit xxh flines \<lparr>spec = Range s e, dstLines = D\<rparr>
           = Inr (\<lparr>spec = Range s e, dstLines = D\<rparr>,
                  [buildMismatch xxh flines s (line s), buildMismatch xxh flines e (line e)])"
proof -
  have vs: "validateOrRelocateRef xxh flines s = Inr (s\<lparr>line := k\<rparr>, Ok True, [])"
    using validateOrRelocateRef_relocates[OF s1 _ sm su] lt e1 by simp
  have ve: "validateOrRelocateRef xxh flines e = Inr (e, Ok False, [])"
    using validateOrRelocateRef_accepts[OF _ e1 em] lt s1 by simp
  have "k \<in> set (linesWithHash xxh (toLowerCase (hash s)) flines 1)" using su by simp
  from linesWithHash_mem[OF this]
  have "computeLineHash xxh (flines ! (k - 1)) = toLowerCase (hash s)" by simp
  with sm have kne: "k \<noteq> line s" by auto
  have bm: "buildMismatch xxh flines (s\<lparr>line := k, line := line s\<rparr>) (line s)
              = buildMismatch xxh flines s (line s)"
           "buildMismatch xxh flines (e\<lparr>line := line e\<rparr>) (line e)
              = buildMismatch xxh flines e (line e)"
    by (simp_all add: buildMismatch_def)
  show ?thesis
    using lt kne by (simp add: validateEdit_def vs ve Let_def relocatedStatus_def bm)
qed

subsection \<open>The relocation example\<close>

lemma split_zabc:
  "splitLF (joinLF [js ''zzz'', js ''aaa'', js ''bbb'', js ''ccc''])
     = [js ''zzz'', js ''aaa'', js ''bbb'', js ''ccc'']"
  by (simp add: str_defs)

lemma hashes_zabc:
  "computeLineHash xxHash32 (js ''zzz'') = js ''10''"
  "computeLineHash xxHash32 (js ''aaa'') = js ''5f''"
  "computeLineHash xxHash32 (js ''bbb'') = js ''67''"
  "computeLineHash xxHash32 (js ''ccc'') = js ''00''"
  by (simp_all add: hash_defs str_defs)

lemma linesWithHash_zabc:
  "linesWithHash xxHash32 (js ''5f'') [js ''zzz'', js ''aaa'', js ''bbb'', js ''ccc''] 1 = [2]"
  by (simp add: hashes_zabc) (simp add: js_def)

lemma relocation_example:
  "applyHashlineEdits xxHash32 (joinLF [js ''zzz'', js ''aaa'', js ''bbb'', js ''ccc''])
     [SetLineEdit (js ''1:5f'') (js ''AAA'')]
   = Inr \<lparr>content = joinLF [js ''zzz'', js ''AAA'', js ''bbb'', js ''ccc''],
          resultFirstChangedLine = Some 2, warnings = [], resultNoopEdits = []\<rparr>"
proof -
  have pe: "parseHashlineEdit (SetLineEdit (js ''1:5f'') (js ''AAA''))
              = Inr (Single \<lparr>line = 1, hash = js ''5f''\<rparr>, js ''AAA'')"
    by (simp add: parse_defs str_defs)
  have dst: "stripNewLinePrefixes (splitDstLines (js ''AAA'')) = [js ''AAA'']"
    by (simp add: parse_defs str_defs)
  have lw: "toLowerCase (js ''5f'') = js ''5f''" by (simp add: toLowerCase_def js_def)
  have vr: "validateOrRelocateRef xxHash32 [js ''zzz'', js ''aaa'', js ''bbb'', js ''ccc'']
              \<lparr>line = 1, hash = js ''5f''\<rparr> = Inr (\<lparr>line = 2, hash = js ''5f''\<rparr>, Ok True, [])"
    using validateOrRelocateRef_relocates
            [of "\<lparr>line = 1, hash = js ''5f''\<rparr>" "[js ''zzz'', js ''aaa'', js ''bbb'', js ''ccc'']"
                xxHash32 2]
    by (simp add: lw hashes_zabc linesWithHash_zabc) (simp add: js_def)
  have ve: "validateEdit xxHash32 (splitLF (joinLF [js ''zzz'', js ''aaa'', js ''bbb'', js ''ccc'']))
              \<lparr>spec = Single \<lparr>line = 1, hash = js ''5f''\<rparr>,
               dstLines = stripNewLinePrefixes (splitDstLines (js ''AAA''))\<rparr>
            = Inr (\<lparr>spec = Single \<lparr>line = 2, hash = js ''5f''\<rparr>, dstLines = [js ''AAA'']\<rparr>, [])"
    unfolding split_zabc dst using vr by (simp add: validateEdit_def)
  have mg: "maybeExpandSingleLineMerge [js ''zzz'', js ''aaa'', js ''bbb'', js ''ccc''] {2} 2 [js ''AAA'']
              = None"
    by (simp add: maybeExpandSingleLineMerge_def stripAllWhitespace_def
          stripTrailingContinuationTokens_def stripMergeOperatorChars_def continuationChars_def
          indexOf_def str_defs Let_def)
  have rr: "resolveReplacement [js ''zzz'', js ''aaa'', js ''bbb'', js ''ccc''] 2 2 [js ''AAA'']
              = [js ''AAA'']"
    by (simp add: resolveReplacement_def slice_def stripRangeBoundaryEcho_def
          restoreOldWrappedLines_def restoreIndentForPairedReplacement_def restoreLeadingIndent_def
          leadingWhitespace_def hyphenFallback_def str_defs Let_def)
  have ap: "applyEdit [js ''zzz'', js ''aaa'', js ''bbb'', js ''ccc'']
              (collectExplicitlyTouchedLines [\<lparr>spec = Single \<lparr>line = 2, hash = js ''5f''\<rparr>, dstLines = [js ''AAA'']\<rparr>])
              \<lparr>fileLines = [js ''zzz'', js ''aaa'', js ''bbb'', js ''ccc''], firstChangedLine = None, noopEdits = []\<rparr>
              (annotate \<lparr>spec = Single \<lparr>line = 2, hash = js ''5f''\<rparr>, dstLines = [js ''AAA'']\<rparr> 0)
            = \<lparr>fileLines = [js ''zzz'', js ''AAA'', js ''bbb'', js ''ccc''], firstChangedLine = Some 2, noopEdits = []\<rparr>"
    by (simp add: applyEdit_def collectExplicitlyTouchedLines_def mg rr slice_def splice_def
          trackFirstChanged_def Let_def) (simp add: str_defs)
  show ?thesis
    using applyHashlineEdits_single[OF pe ve]
    unfolding split_zabc ap
    by (simp add: singleResult_def diffLineCount_def)
qed

subsection \<open>A failed anchor aborts the batch\<close>

lemma validateAll_collects:
  "validateAll xxh flines ps = Inr (vs, ms) \<Longrightarrow> p \<in> set ps
     \<Longrightarrow> \<exists>p' mp. validateEdit xxh flines p = Inr (p', mp) \<and> set mp \<subseteq> set ms"
proof (induction ps arbitrary: vs ms)
  case Nil then show ?case by simp
next
  case (Cons q qs)
  from Cons.prems(1) obtain q' mq vs' ms' where
    q: "validateEdit xxh flines q = Inr (q', mq)" and r: "validateAll xxh flines qs = Inr (vs', ms')"
    and ms: "ms = mq @ ms'"
    by (auto split: sum.splits)
  show ?case
  proof (cases "p = q")
    case True
    with q ms show ?thesis by auto
  next
    case False
    with Cons.prems(2) have "p \<in> set qs" by simp
    from Cons.IH[OF r this] ms show ?thesis by auto
  qed
qed

lemma validateEdit_records_mismatch:
  assumes ve: "validateEdit xxh flines p = Inr (p', mp)"
    and an: "ref \<in> set (anchorsOf (spec p))"
    and r1: "1 \<le> line ref" and r2: "line ref \<le> length flines"
    and mm: "computeLineHash xxh (flines ! (line ref - 1)) \<noteq> toLowerCase (hash ref)"
    and nu: "length (linesWithHash xxh (toLowerCase (hash ref)) flines 1) \<noteq> 1"
  shows "\<lparr>mismatchLine = line ref, expected = hash ref,
           actual = computeLineHash xxh (flines ! (line ref - 1))\<rparr> \<in> set mp"
proof -
  note vr = validateOrRelocateRef_mismatch[OF r1 r2 mm nu]
  show ?thesis
  proof (cases "spec p")
    case (Single x)
    with an have "x = ref" by (simp add: anchorsOf_def)
    with ve Single vr show ?thesis by (auto simp: validateEdit_def)
  next
    case (InsertAfter x)
    with an have "x = ref" by (simp add: anchorsOf_def)
    with ve InsertAfter vr show ?thesis by (auto simp: validateEdit_def split: if_splits)
  next
    case (Range s e)
    with an have se: "ref = s \<or> ref = e" by (auto simp: anchorsOf_def)
    from ve Range obtain s' st1 ms1 e' st2 ms2 where
      vs: "validateOrRelocateRef xxh flines s = Inr (s', st1, ms1)"
      and vee: "validateOrRelocateRef xxh flines e = Inr (e', st2, ms2)"
      by (auto simp: validateEdit_def Let_def split: if_splits sum.splits)
    from se show ?thesis
    proof
      assume "ref = s"
      with vr vs have "st1 = NotOk" and m1: "ms1 = [\<lparr>mismatchLine = line ref, expected = hash ref,
           actual = computeLineHash xxh (flines ! (line ref - 1))\<rparr>]" by auto
      with ve Range vs vee show ?thesis
        by (auto simp: validateEdit_def Let_def split: if_splits)
    next
      assume "ref = e"
      with vr vee have "st2 = NotOk" and m2: "ms2 = [\<lparr>mismatchLine = line ref, expected = hash ref,
           actual = computeLineHash xxh (flines ! (line ref - 1))\<rparr>]" by auto
      with ve Range vs vee show ?thesis
        by (auto simp: validateEdit_def Let_def split: if_splits)
    qed
  qed
qed

lemma failed_anchor_aborts:
  assumes pe: "parseEdits edits = Inr ps" and pin: "p \<in> set ps"
    and an: "ref \<in> set (anchorsOf (spec p))"
    and r1: "1 \<le> line ref" and r2: "line ref \<le> length (splitLF c)"
    and mm: "computeLineHash xxh (splitLF c ! (line ref - 1)) \<noteq> toLowerCase (hash ref)"
    and nu: "length (linesWithHash xxh (toLowerCase (hash ref)) (splitLF c) 1) \<noteq> 1"
  shows "\<exists>err. applyHashlineEdits xxh c edits = Inl err"
    and "validateAll xxh (splitLF c) ps = Inr (vs, ms)
           \<Longrightarrow> applyHashlineEdits xxh c edits = Inl (HashlineMismatchError ms (splitLF c))
               \<and> \<lparr>mismatchLine = line ref, expected = hash ref,
                    actual = computeLineHash xxh (splitLF c ! (line ref - 1))\<rparr> \<in> set ms"
proof -
  have ne: "length edits \<noteq> 0" using pe pin by (cases edits) auto
  have main: "\<And>vs ms. validateAll xxh (splitLF c) ps = Inr (vs, ms)
           \<Longrightarrow> applyHashlineEdits xxh c edits = Inl (HashlineMismatchError ms (splitLF c))
               \<and> \<lparr>mismatchLine = line ref, expected = hash ref,
                    actual = computeLineHash xxh (splitLF c ! (line ref - 1))\<rparr> \<in> set ms"
  proof -
    fix vs ms assume va: "validateAll xxh (splitLF c) ps = Inr (vs, ms)"
    from validateAll_collects[OF va pin] obtain p' mp where
      ve: "validateEdit xxh (splitLF c) p = Inr (p', mp)" and sub: "set mp \<subseteq> set ms" by blast
    from validateEdit_records_mismatch[OF ve an r1 r2 mm nu] sub
    have mem: "\<lparr>mismatchLine = line ref, expected = hash ref,
                actual = computeLineHash xxh (splitLF c ! (line ref - 1))\<rparr> \<in> set ms" by blast
    then have "length ms > 0" by (cases ms) auto
    with ne pe va mem
    show "applyHashlineEdits xxh c edits = Inl (HashlineMismatchError ms (splitLF c))
               \<and> \<lparr>mismatchLine = line ref, expected = hash ref,
                    actual = computeLineHash xxh (splitLF c ! (line ref - 1))\<rparr> \<in> set ms"
      by (simp add: applyHashlineEdits_def Let_def)
  qed
  show "validateAll xxh (splitLF c) ps = Inr (vs, ms)
           \<Longrightarrow> applyHashlineEdits xxh c edits = Inl (HashlineMismatchError ms (splitLF c))
               \<and> \<lparr>mismatchLine = line ref, expected = hash ref,
                    actual = computeLineHash xxh (splitLF c ! (line ref - 1))\<rparr> \<in> set ms"
    by (rule main)
  show "\<exists>err. applyHashlineEdits xxh c edits = Inl err"
  proof (cases "validateAll xxh (splitLF c) ps")
    case (Inl err)
    with ne pe show ?thesis by (simp add: applyHashlineEdits_def Let_def)
  next
    case (Inr r)
    then obtain vs ms where "validateAll xxh (splitLF c) ps = Inr (vs, ms)" by (cases r) auto
    from main[OF this] show ?thesis by blast
  qed
qed


lemma parseEdits_mem:
  "parseEdits edits = Inr ps \<Longrightarrow> e \<in> set edits
     \<Longrightarrow> \<exists>p \<in> set ps. \<exists>dst. parseHashlineEdit e = Inr (spec p, dst)"
proof (induction edits arbitrary: ps)
  case Nil then show ?case by simp
next
  case (Cons d ds)
  from Cons.prems(1) obtain sp dst qs where
    d: "parseHashlineEdit d = Inr (sp, dst)" and q: "parseEdits ds = Inr qs"
    and ps: "ps = \<lparr>spec = sp, dstLines = stripNewLinePrefixes (splitDstLines dst)\<rparr> # qs"
    by (auto split: sum.splits)
  show ?case
  proof (cases "e = d")
    case True
    with d ps show ?thesis by auto
  next
    case False
    with Cons.prems(2) have "e \<in> set ds" by simp
    from Cons.IH[OF q this] ps show ?thesis by auto
  qed
qed

lemma checkedAnchors_parsed:
  assumes "parseHashlineEdit e = Inr (sp, dst)" and "a \<in> set (checkedAnchors e)"
    and "parseLineRef a = Inr ref"
  shows "ref \<in> set (anchorsOf sp)"
proof (cases e)
  case (SetLineEdit anchor new_text)
  with assms show ?thesis
    by (auto simp: parseHashlineEdit_def checkedAnchors_def anchorsOf_def)
next
  case (InsertAfterEdit anchor ins_text)
  with assms show ?thesis
    by (auto simp: parseHashlineEdit_def checkedAnchors_def anchorsOf_def)
next
  case (ReplaceEdit old_text new_text all)
  with assms show ?thesis by (simp add: checkedAnchors_def)
next
  case (ReplaceLinesEdit sa ea new_text)
  from assms(1) obtain rs where rs: "parseLineRef sa = Inr rs"
    unfolding ReplaceLinesEdit by (auto simp: parseHashlineEdit_def split: sum.splits)
  show ?thesis
  proof (cases "ea = []")
    case True
    with assms rs show ?thesis
      unfolding ReplaceLinesEdit by (auto simp: parseHashlineEdit_def checkedAnchors_def anchorsOf_def)
  next
    case False
    with assms(1) rs obtain re where re: "parseLineRef ea = Inr re"
      unfolding ReplaceLinesEdit by (auto simp: parseHashlineEdit_def split: sum.splits)
    from assms rs re False show ?thesis
      unfolding ReplaceLinesEdit
      by (auto simp: parseHashlineEdit_def checkedAnchors_def anchorsOf_def split: if_splits)
  qed
qed

lemma parseLineRef_error:
  "parseLineRef a = Inl err
     \<Longrightarrow> (\<exists>s. err = InvalidLineReference s) \<or> (\<exists>n s. err = LineNumberTooSmall n s)"
proof -
  assume a: "parseLineRef a = Inl err"
  show ?thesis
  proof (cases "matchLineRef (normalizeColon (trim (cutDoubleSpaceTail (cutPipeTail a))))")
    case None
    with a have "err = InvalidLineReference a" by (simp add: parseLineRef_def Let_def)
    then show ?thesis by blast
  next
    case (Some dh)
    obtain d h where dh: "dh = (d, h)" by (cases dh)
    from a Some dh have "err = LineNumberTooSmall (parseDecimal d) a"
      by (simp add: parseLineRef_def Let_def split: if_splits)
    then show ?thesis by blast
  qed
qed

lemma parseHashlineEdit_error:
  "parseHashlineEdit e = Inl err \<Longrightarrow> \<not> isReplaceEdit e
     \<Longrightarrow> (\<exists>s. err = InvalidLineReference s) \<or> (\<exists>n s. err = LineNumberTooSmall n s)"
  by (cases e)
     (auto simp: parseHashlineEdit_def isReplaceEdit_def split: sum.splits if_splits
           dest: parseLineRef_error)

lemma parseEdits_error:
  "parseEdits edits = Inl err \<Longrightarrow> \<forall>e \<in> set edits. \<not> isReplaceEdit e
     \<Longrightarrow> (\<exists>s. err = InvalidLineReference s) \<or> (\<exists>n s. err = LineNumberTooSmall n s)"
proof (induction edits)
  case Nil then show ?case by simp
next
  case (Cons d ds)
  show ?case
  proof (cases "parseHashlineEdit d")
    case (Inl x)
    with Cons.prems have "x = err" by simp
    with Inl Cons.prems(2) parseHashlineEdit_error[of d err] show ?thesis by simp
  next
    case (Inr r)
    with Cons.prems(1) have "parseEdits ds = Inl err" by (auto split: sum.splits prod.splits)
    from Cons.IH[OF this] Cons.prems(2) show ?thesis by simp
  qed
qed

lemma validateOrRelocateRef_error:
  "validateOrRelocateRef xxh flines ref = Inl err \<Longrightarrow> \<exists>n m. err = LineDoesNotExist n m"
  by (auto simp: validateOrRelocateRef_def Let_def split: if_splits option.splits)

lemma validateEdit_error:
  assumes "validateEdit xxh flines p = Inl err"
  shows "(\<exists>n m. err = LineDoesNotExist n m) \<or> err = InsertAfterRequiresNonEmpty
           \<or> (\<exists>s t. err = RangeStartAfterEnd s t)"
proof (cases "spec p")
  case (Single r)
  with assms show ?thesis
    by (auto simp: validateEdit_def split: sum.splits dest: validateOrRelocateRef_error)
next
  case (InsertAfter r)
  with assms show ?thesis
    by (auto simp: validateEdit_def split: sum.splits if_splits dest: validateOrRelocateRef_error)
next
  case (Range s e)
  show ?thesis
  proof (cases "line s > line e")
    case True
    with assms Range have "err = RangeStartAfterEnd (line s) (line e)"
      by (auto simp: validateEdit_def)
    then show ?thesis by blast
  next
    case False
    show ?thesis
    proof (cases "validateOrRelocateRef xxh flines s")
      case (Inl x)
      with assms Range False have "x = err" by (simp add: validateEdit_def Let_def)
      with Inl validateOrRelocateRef_error show ?thesis by blast
    next
      case a: (Inr t)
      show ?thesis
      proof (cases "validateOrRelocateRef xxh flines e")
        case (Inl x)
        with assms Range False a have "x = err"
          by (simp add: validateEdit_def Let_def split: prod.splits)
        with Inl validateOrRelocateRef_error show ?thesis by blast
      next
        case (Inr u)
        with assms Range False a show ?thesis
          by (simp add: validateEdit_def Let_def split: prod.splits if_splits)
      qed
    qed
  qed
qed

lemma validateAll_error:
  "validateAll xxh flines ps = Inl err
     \<Longrightarrow> (\<exists>n m. err = LineDoesNotExist n m) \<or> err = InsertAfterRequiresNonEmpty
           \<or> (\<exists>s t. err = RangeStartAfterEnd s t)"
proof (induction ps)
  case Nil then show ?case by simp
next
  case (Cons p ps)
  show ?case
  proof (cases "validateEdit xxh flines p")
    case (Inl x)
    with Cons.prems have "x = err" by simp
    with Inl validateEdit_error show ?thesis by blast
  next
    case (Inr r)
    with Cons.prems have "validateAll xxh flines ps = Inl err"
      by (auto split: sum.splits prod.splits)
    from Cons.IH[OF this] show ?thesis .
  qed
qed

lemma applyHashlineEdits_parse_error:
  "edits \<noteq> [] \<Longrightarrow> parseEdits edits = Inl err \<Longrightarrow> applyHashlineEdits xxh c edits = Inl err"
  by (simp add: applyHashlineEdits_def Let_def)

lemma applyHashlineEdits_validation_error:
  "edits \<noteq> [] \<Longrightarrow> parseEdits edits = Inr ps \<Longrightarrow> validateAll xxh (splitLF c) ps = Inl err
     \<Longrightarrow> applyHashlineEdits xxh c edits = Inl err"
  by (simp add: applyHashlineEdits_def Let_def)

text \<open>
  Claim C1, amended. Let an anchor that reaches the validation loop (any anchor of a
  \<open>set_line\<close>, \<open>replace_lines\<close> or \<open>insert_after\<close> edit of the batch, except an end
  anchor that names the same line as its start anchor: that one is discarded unchecked)
  fail validation: its stated line exists, the fingerprint of that line is another one,
  and the fingerprint of the anchor is not the fingerprint of exactly one line. Then the
  batch ends in an error and the file is left as it was. The error is

  \<^item> the parse error of the first malformed anchor, if the batch has one: an invalid line
    reference or a line number below 1;
  \<^item> otherwise the error that the validation loop raises, if it raises one: a line that
    does not exist, an insertion of no lines, or a range whose start is after its end;
  \<^item> otherwise the \<open>HashlineMismatchError\<close> that carries all mismatches recorded by the
    loop, the one of this anchor among them.
\<close>

theorem failed_anchor_aborts_batch:
  assumes "c = normalizeToLF (bomText (stripBom raw))"
    and "edits = filter (\<lambda>e. \<not> isReplaceEdit e) es"
    and "e \<in> set edits" and "a \<in> set (checkedAnchors e)" and "parseLineRef a = Inr ref"
    and "1 \<le> line ref" and "line ref \<le> length (splitLF c)"
    and "computeLineHash xxh (splitLF c ! (line ref - 1)) \<noteq> toLowerCase (hash ref)"
    and "length (linesWithHash xxh (toLowerCase (hash ref)) (splitLF c) 1) \<noteq> 1"
  shows "(\<exists>err. applyHashlineEdits xxh c edits = Inl err
                \<and> edit_file xxh rt raw es = Some (Inl err))
       \<and> fileAfter raw (edit_file xxh rt raw es) = raw
       \<and> (\<forall>err. parseEdits edits = Inl err
             \<longrightarrow> applyHashlineEdits xxh c edits = Inl err
                 \<and> ((\<exists>s. err = InvalidLineReference s) \<or> (\<exists>n s. err = LineNumberTooSmall n s)))
       \<and> (\<forall>ps err. parseEdits edits = Inr ps \<and> validateAll xxh (splitLF c) ps = Inl err
             \<longrightarrow> applyHashlineEdits xxh c edits = Inl err
                 \<and> ((\<exists>n m. err = LineDoesNotExist n m) \<or> err = InsertAfterRequiresNonEmpty
                      \<or> (\<exists>s t. err = RangeStartAfterEnd s t)))
       \<and> (\<forall>ps vs ms. parseEdits edits = Inr ps \<and> validateAll xxh (splitLF c) ps = Inr (vs, ms)
             \<longrightarrow> applyHashlineEdits xxh c edits = Inl (HashlineMismatchError ms (splitLF c))
                 \<and> edit_file xxh rt raw es = Some (Inl (HashlineMismatchError ms (splitLF c)))
                 \<and> \<lparr>mismatchLine = line ref, expected = hash ref,
                      actual = computeLineHash xxh (splitLF c ! (line ref - 1))\<rparr> \<in> set ms)"
proof -
  have ne: "edits \<noteq> []" using assms(3) by auto
  have nr: "\<forall>e \<in> set edits. \<not> isReplaceEdit e" unfolding assms(2) by simp
  have c3: "\<forall>err. parseEdits edits = Inl err
             \<longrightarrow> applyHashlineEdits xxh c edits = Inl err
                 \<and> ((\<exists>s. err = InvalidLineReference s) \<or> (\<exists>n s. err = LineNumberTooSmall n s))"
    using applyHashlineEdits_parse_error[OF ne] parseEdits_error[OF _ nr] by blast
  have c4: "\<forall>ps err. parseEdits edits = Inr ps \<and> validateAll xxh (splitLF c) ps = Inl err
             \<longrightarrow> applyHashlineEdits xxh c edits = Inl err
                 \<and> ((\<exists>n m. err = LineDoesNotExist n m) \<or> err = InsertAfterRequiresNonEmpty
                      \<or> (\<exists>s t. err = RangeStartAfterEnd s t))"
    using applyHashlineEdits_validation_error[OF ne] validateAll_error by blast
  have ef: "edit_file xxh rt raw es = Some (Inl err)"
    if "applyHashlineEdits xxh c edits = Inl err" for err
    using that edit_file_anchor_error(1)[of xxh raw es err rt] assms(1,2) by simp
  have mm: "applyHashlineEdits xxh c edits = Inl (HashlineMismatchError ms (splitLF c))
              \<and> \<lparr>mismatchLine = line ref, expected = hash ref,
                   actual = computeLineHash xxh (splitLF c ! (line ref - 1))\<rparr> \<in> set ms"
    if pe: "parseEdits edits = Inr ps" and va: "validateAll xxh (splitLF c) ps = Inr (vs, ms)"
    for ps vs ms
  proof -
    from parseEdits_mem[OF pe assms(3)] obtain p dst where
      p: "p \<in> set ps" and ph: "parseHashlineEdit e = Inr (spec p, dst)" by blast
    have an: "ref \<in> set (anchorsOf (spec p))"
      by (rule checkedAnchors_parsed[OF ph assms(4,5)])
    show ?thesis by (rule failed_anchor_aborts(2)[OF pe p an assms(6-9) va])
  qed
  have c5: "\<forall>ps vs ms. parseEdits edits = Inr ps \<and> validateAll xxh (splitLF c) ps = Inr (vs, ms)
             \<longrightarrow> applyHashlineEdits xxh c edits = Inl (HashlineMismatchError ms (splitLF c))
                 \<and> edit_file xxh rt raw es = Some (Inl (HashlineMismatchError ms (splitLF c)))
                 \<and> \<lparr>mismatchLine = line ref, expected = hash ref,
                      actual = computeLineHash xxh (splitLF c ! (line ref - 1))\<rparr> \<in> set ms"
    using mm ef by blast
  have ab: "\<exists>err. applyHashlineEdits xxh c edits = Inl err"
  proof (cases "parseEdits edits")
    case (Inl err) with c3 show ?thesis by blast
  next
    case (Inr ps)
    show ?thesis
    proof (cases "validateAll xxh (splitLF c) ps")
      case (Inl err) with c4 Inr show ?thesis by blast
    next
      case r: (Inr t)
      obtain vs ms where "t = (vs, ms)" by (cases t)
      with mm[OF Inr] r show ?thesis by blast
    qed
  qed
  then obtain err where err: "applyHashlineEdits xxh c edits = Inl err" by blast
  have c1: "\<exists>err. applyHashlineEdits xxh c edits = Inl err
                \<and> edit_file xxh rt raw es = Some (Inl err)"
    using err ef by blast
  have c2: "fileAfter raw (edit_file xxh rt raw es) = raw"
    using ef[OF err] by (simp add: fileAfter_def)
  show ?thesis by (intro conjI c1 c2 c3 c4 c5)
qed


lemma hash_aaa: "computeLineHash xxHash32 (js ''aaa'') = js ''5f''"
  by (simp add: hash_defs str_defs)

lemma linesWithHash_ff_aaa: "linesWithHash xxHash32 (js ''ff'') [js ''aaa''] 1 = []"
  by (simp add: hash_aaa) (simp add: js_def)

lemma linesWithHash_absent_abc:
  "linesWithHash xxHash32 (js ''ff'') [js ''aaa'', js ''bbb'', js ''ccc''] 1 = []"
  "linesWithHash xxHash32 (js ''ee'') [js ''aaa'', js ''bbb'', js ''ccc''] 1 = []"
  by (simp_all add: hashes_zabc) (simp_all add: js_def)

theorem failed_anchor_aborts_batch_witness:
  "parseLineRef (js ''1:ff'') = Inr \<lparr>line = 1, hash = js ''ff''\<rparr>
   \<and> checkedAnchors (SetLineEdit (js ''1:ff'') (js ''x'')) = [js ''1:ff'']
   \<and> computeLineHash xxHash32 (js ''aaa'') = js ''5f''
   \<and> linesWithHash xxHash32 (js ''ff'') [js ''aaa'', js ''bbb'', js ''ccc''] 1 = []
   \<and> edit_file xxHash32 zeroScoreRuntime (joinLF [js ''aaa'', js ''bbb'', js ''ccc''])
         [SetLineEdit (js ''1:ff'') (js ''x''),
          SetLineEdit (js ''2:67'') (js ''BBB''),
          ReplaceLinesEdit (js ''2:67'') (js ''3:ee'') (js ''y'')]
       = Some (Inl (HashlineMismatchError
          [\<lparr>mismatchLine = 1, expected = js ''ff'', actual = js ''5f''\<rparr>,
           \<lparr>mismatchLine = 3, expected = js ''ee'', actual = js ''00''\<rparr>] [js ''aaa'', js ''bbb'', js ''ccc'']))
   \<and> fileAfter (joinLF [js ''aaa'', js ''bbb'', js ''ccc''])
         (edit_file xxHash32 zeroScoreRuntime (joinLF [js ''aaa'', js ''bbb'', js ''ccc''])
         [SetLineEdit (js ''1:ff'') (js ''x''),
          SetLineEdit (js ''2:67'') (js ''BBB''),
          ReplaceLinesEdit (js ''2:67'') (js ''3:ee'') (js ''y'')])
       = joinLF [js ''aaa'', js ''bbb'', js ''ccc'']"
proof -
  let ?es = "[SetLineEdit (js ''1:ff'') (js ''x''),
          SetLineEdit (js ''2:67'') (js ''BBB''),
          ReplaceLinesEdit (js ''2:67'') (js ''3:ee'') (js ''y'')]"
  have sl: "splitLF (joinLF [js ''aaa'', js ''bbb'', js ''ccc'']) = [js ''aaa'', js ''bbb'', js ''ccc'']" by (simp add: str_defs)
  have c: "joinLF [js ''aaa'', js ''bbb'', js ''ccc''] = normalizeToLF (bomText (stripBom (joinLF [js ''aaa'', js ''bbb'', js ''ccc''])))"
    by (simp add: stripBom_def normalizeToLF_noCR str_defs BOM_def)
  have f: "?es = filter (\<lambda>e. \<not> isReplaceEdit e) ?es"
    by (simp add: isReplaceEdit_def)
  have m: "SetLineEdit (js ''1:ff'') (js ''x'') \<in> set ?es" by simp
  have ca: "checkedAnchors (SetLineEdit (js ''1:ff'') (js ''x'')) = [js ''1:ff'']" by (simp add: checkedAnchors_def)
  have a: "js ''1:ff'' \<in> set (checkedAnchors (SetLineEdit (js ''1:ff'') (js ''x'')))" unfolding ca by simp
  have pl: "parseLineRef (js ''1:ff'') = Inr \<lparr>line = 1, hash = js ''ff''\<rparr>"
    by (simp add: parse_defs str_defs)
  have pe: "parseEdits ?es
     = Inr [\<lparr>spec = Single \<lparr>line = 1, hash = js ''ff''\<rparr>, dstLines = [js ''x'']\<rparr>,
           \<lparr>spec = Single \<lparr>line = 2, hash = js ''67''\<rparr>, dstLines = [js ''BBB'']\<rparr>,
           \<lparr>spec = ParsedRefs.Range \<lparr>line = 2, hash = js ''67''\<rparr> \<lparr>line = 3, hash = js ''ee''\<rparr>, dstLines = [js ''y'']\<rparr>]"
    by (simp add: parse_defs str_defs)
  have lw: "toLowerCase (js ''ff'') = js ''ff''" "toLowerCase (js ''ee'') = js ''ee''"
           "toLowerCase (js ''67'') = js ''67''"
    by (simp_all add: toLowerCase_def js_def)
  have ne: "js ''5f'' \<noteq> js ''ff''" "js ''00'' \<noteq> js ''ee''" by (simp_all add: js_def)
  have v1: "validateEdit xxHash32 [js ''aaa'', js ''bbb'', js ''ccc''] (\<lparr>spec = Single \<lparr>line = 1, hash = js ''ff''\<rparr>, dstLines = [js ''x'']\<rparr>) = Inr (\<lparr>spec = Single \<lparr>line = 1, hash = js ''ff''\<rparr>, dstLines = [js ''x'']\<rparr>, [\<lparr>mismatchLine = 1, expected = js ''ff'', actual = js ''5f''\<rparr>])"
    using ne linesWithHash_absent_abc
    by (simp add: validateEdit_def validateOrRelocateRef_def uniqueLineByHash_lookup
          lw hashes_zabc Let_def)
  have v2: "validateEdit xxHash32 [js ''aaa'', js ''bbb'', js ''ccc''] (\<lparr>spec = Single \<lparr>line = 2, hash = js ''67''\<rparr>, dstLines = [js ''BBB'']\<rparr>) = Inr (\<lparr>spec = Single \<lparr>line = 2, hash = js ''67''\<rparr>, dstLines = [js ''BBB'']\<rparr>, [])"
    by (simp add: validateEdit_def validateOrRelocateRef_def lw hashes_zabc Let_def)
  have v3: "validateEdit xxHash32 [js ''aaa'', js ''bbb'', js ''ccc''] (\<lparr>spec = ParsedRefs.Range \<lparr>line = 2, hash = js ''67''\<rparr> \<lparr>line = 3, hash = js ''ee''\<rparr>, dstLines = [js ''y'']\<rparr>) = Inr (\<lparr>spec = ParsedRefs.Range \<lparr>line = 2, hash = js ''67''\<rparr> \<lparr>line = 3, hash = js ''ee''\<rparr>, dstLines = [js ''y'']\<rparr>, [\<lparr>mismatchLine = 3, expected = js ''ee'', actual = js ''00''\<rparr>])"
    using ne linesWithHash_absent_abc
    by (simp add: validateEdit_def validateOrRelocateRef_def uniqueLineByHash_lookup
          lw hashes_zabc Let_def)
  have va: "validateAll xxHash32 (splitLF (joinLF [js ''aaa'', js ''bbb'', js ''ccc'']))
              [\<lparr>spec = Single \<lparr>line = 1, hash = js ''ff''\<rparr>, dstLines = [js ''x'']\<rparr>,
           \<lparr>spec = Single \<lparr>line = 2, hash = js ''67''\<rparr>, dstLines = [js ''BBB'']\<rparr>,
           \<lparr>spec = ParsedRefs.Range \<lparr>line = 2, hash = js ''67''\<rparr> \<lparr>line = 3, hash = js ''ee''\<rparr>, dstLines = [js ''y'']\<rparr>]
            = Inr ([\<lparr>spec = Single \<lparr>line = 1, hash = js ''ff''\<rparr>, dstLines = [js ''x'']\<rparr>,
           \<lparr>spec = Single \<lparr>line = 2, hash = js ''67''\<rparr>, dstLines = [js ''BBB'']\<rparr>,
           \<lparr>spec = ParsedRefs.Range \<lparr>line = 2, hash = js ''67''\<rparr> \<lparr>line = 3, hash = js ''ee''\<rparr>, dstLines = [js ''y'']\<rparr>],
                   [\<lparr>mismatchLine = 1, expected = js ''ff'', actual = js ''5f''\<rparr>,
           \<lparr>mismatchLine = 3, expected = js ''ee'', actual = js ''00''\<rparr>])"
    unfolding sl using v1 v2 v3 by simp
  have r1: "1 \<le> line \<lparr>line = 1, hash = js ''ff''\<rparr>" by simp
  have r2: "line \<lparr>line = 1, hash = js ''ff''\<rparr> \<le> length (splitLF (joinLF [js ''aaa'', js ''bbb'', js ''ccc'']))"
    unfolding sl by simp
  have hm: "computeLineHash xxHash32 (splitLF (joinLF [js ''aaa'', js ''bbb'', js ''ccc'']) ! (line \<lparr>line = 1, hash = js ''ff''\<rparr> - 1))
              \<noteq> toLowerCase (hash \<lparr>line = 1, hash = js ''ff''\<rparr>)"
    unfolding sl using ne by (simp add: lw hashes_zabc)
  have nu: "length (linesWithHash xxHash32 (toLowerCase (hash \<lparr>line = 1, hash = js ''ff''\<rparr>))
                      (splitLF (joinLF [js ''aaa'', js ''bbb'', js ''ccc''])) 1) \<noteq> 1"
    unfolding sl using linesWithHash_absent_abc by (simp add: lw)
  note T = failed_anchor_aborts_batch
             [where rt = zeroScoreRuntime and xxh = xxHash32, OF c f m a pl r1 r2 hm nu]
  from T[THEN conjunct2, THEN conjunct2, THEN conjunct2, THEN conjunct2,
         THEN spec, THEN spec, THEN spec, THEN mp, OF conjI[OF pe va]]
  have e: "edit_file xxHash32 zeroScoreRuntime (joinLF [js ''aaa'', js ''bbb'', js ''ccc'']) ?es
       = Some (Inl (HashlineMismatchError
          [\<lparr>mismatchLine = 1, expected = js ''ff'', actual = js ''5f''\<rparr>,
           \<lparr>mismatchLine = 3, expected = js ''ee'', actual = js ''00''\<rparr>] [js ''aaa'', js ''bbb'', js ''ccc'']))"
    unfolding sl by simp
  have fa: "fileAfter (joinLF [js ''aaa'', js ''bbb'', js ''ccc'']) (edit_file xxHash32 zeroScoreRuntime (joinLF [js ''aaa'', js ''bbb'', js ''ccc'']) ?es)
       = joinLF [js ''aaa'', js ''bbb'', js ''ccc'']"
    by (rule T[THEN conjunct2, THEN conjunct1])
  show ?thesis by (intro conjI pl ca hashes_zabc(2) linesWithHash_absent_abc(1) e fa)
qed

text \<open>
  As stated, claim C1 fails when another operation of the batch makes the validation loop
  raise: the first anchor fails validation (line 1 has the fingerprint \<open>5f\<close>, and \<open>ff\<close>
  is the fingerprint of no line), the second names a line that does not exist, and the
  batch ends in that error, not in a \<open>HashlineMismatchError\<close>.
\<close>

theorem failed_anchor_other_error_counterexample:
  "computeLineHash xxHash32 (js ''aaa'') = js ''5f''
   \<and> linesWithHash xxHash32 (js ''ff'') [js ''aaa''] 1 = []
   \<and> applyHashlineEdits xxHash32 (js ''aaa'')
         [SetLineEdit (js ''1:ff'') (js ''x''), SetLineEdit (js ''9:ff'') (js ''y'')]
       = Inl (LineDoesNotExist 9 1)"
proof -
  have pe: "parseEdits [SetLineEdit (js ''1:ff'') (js ''x''), SetLineEdit (js ''9:ff'') (js ''y'')]
     = Inr [\<lparr>spec = Single \<lparr>line = 1, hash = js ''ff''\<rparr>, dstLines = [js ''x'']\<rparr>,
            \<lparr>spec = Single \<lparr>line = 9, hash = js ''ff''\<rparr>, dstLines = [js ''y'']\<rparr>]"
    by (simp add: parse_defs str_defs)
  have sl: "splitLF (js ''aaa'') = [js ''aaa'']" by (simp add: str_defs)
  have lw: "toLowerCase (js ''ff'') = js ''ff''" by (simp add: toLowerCase_def js_def)
  have ne: "js ''5f'' \<noteq> js ''ff''" by (simp add: js_def)
  have va: "validateAll xxHash32 [js ''aaa'']
              [\<lparr>spec = Single \<lparr>line = 1, hash = js ''ff''\<rparr>, dstLines = [js ''x'']\<rparr>,
               \<lparr>spec = Single \<lparr>line = 9, hash = js ''ff''\<rparr>, dstLines = [js ''y'']\<rparr>]
            = Inl (LineDoesNotExist 9 1)"
    using ne
    by (simp add: validateEdit_def validateOrRelocateRef_def uniqueLineByHash_lookup
          linesWithHash_ff_aaa lw hash_aaa Let_def)
  have r: "applyHashlineEdits xxHash32 (js ''aaa'')
         [SetLineEdit (js ''1:ff'') (js ''x''), SetLineEdit (js ''9:ff'') (js ''y'')]
       = Inl (LineDoesNotExist 9 1)"
    unfolding applyHashlineEdits_def pe sl using va by (simp add: Let_def)
  show ?thesis by (intro conjI hash_aaa linesWithHash_ff_aaa r)
qed


subsection \<open>The end anchor of a one-line range\<close>

text \<open>
  When both anchors of a \<open>replace_lines\<close> edit name the same line, the edit is parsed to
  a single-line edit with the start anchor; the fingerprint of the end anchor is not
  looked at. In the file \<open>aaa\<close> the end anchor \<open>1:ff\<close> has a fingerprint that is on no
  line, and the edit is applied.
\<close>

lemma parseHashlineEdit_same_line:
  "ea \<noteq> [] \<Longrightarrow> parseLineRef sa = Inr rs \<Longrightarrow> parseLineRef ea = Inr re \<Longrightarrow> line rs = line re
     \<Longrightarrow> parseHashlineEdit (ReplaceLinesEdit sa ea t) = Inr (Single rs, t)
         \<and> checkedAnchors (ReplaceLinesEdit sa ea t) = [sa]"
  by (simp add: parseHashlineEdit_def checkedAnchors_def)

lemma same_line_end_anchor_example:
  "checkedAnchors (ReplaceLinesEdit (js ''1:5f'') (js ''1:ff'') (js ''X'')) = [js ''1:5f'']
   \<and> linesWithHash xxHash32 (js ''ff'') [js ''aaa''] 1 = []
   \<and> applyHashlineEdits xxHash32 (js ''aaa'')
         [ReplaceLinesEdit (js ''1:5f'') (js ''1:ff'') (js ''X'')]
       = Inr \<lparr>content = js ''X'', resultFirstChangedLine = Some 1, warnings = [],
              resultNoopEdits = []\<rparr>"
proof -
  have p1: "parseLineRef (js ''1:5f'') = Inr \<lparr>line = 1, hash = js ''5f''\<rparr>"
    and p2: "parseLineRef (js ''1:ff'') = Inr \<lparr>line = 1, hash = js ''ff''\<rparr>"
    by (simp_all add: parse_defs str_defs)
  have ne: "js ''1:ff'' \<noteq> []" by (simp add: js_def)
  have sm: "line \<lparr>line = 1, hash = js ''5f''\<rparr> = line \<lparr>line = 1, hash = js ''ff''\<rparr>" by simp
  note ps = parseHashlineEdit_same_line[OF ne p1 p2 sm, of "js ''X''"]
  have sl: "splitLF (js ''aaa'') = [js ''aaa'']" by (simp add: str_defs)
  have dst: "stripNewLinePrefixes (splitDstLines (js ''X'')) = [js ''X'']"
    by (simp add: parse_defs str_defs)
  have lw: "toLowerCase (js ''5f'') = js ''5f''" by (simp add: toLowerCase_def js_def)
  have ve: "validateEdit xxHash32 (splitLF (js ''aaa''))
              \<lparr>spec = Single \<lparr>line = 1, hash = js ''5f''\<rparr>,
               dstLines = stripNewLinePrefixes (splitDstLines (js ''X''))\<rparr>
            = Inr (\<lparr>spec = Single \<lparr>line = 1, hash = js ''5f''\<rparr>, dstLines = [js ''X'']\<rparr>, [])"
    unfolding sl dst
    by (simp add: validateEdit_def validateOrRelocateRef_def lw hash_aaa Let_def)
  have mg: "maybeExpandSingleLineMerge [js ''aaa''] {1} 1 [js ''X''] = None"
    by (simp add: maybeExpandSingleLineMerge_def stripAllWhitespace_def
          stripTrailingContinuationTokens_def stripMergeOperatorChars_def continuationChars_def
          indexOf_def str_defs Let_def)
  have rr: "resolveReplacement [js ''aaa''] 1 1 [js ''X''] = [js ''X'']"
    by (simp add: resolveReplacement_def slice_def stripRangeBoundaryEcho_def
          restoreOldWrappedLines_def restoreIndentForPairedReplacement_def restoreLeadingIndent_def
          leadingWhitespace_def hyphenFallback_def str_defs Let_def)
  have ap: "applyEdit [js ''aaa'']
              (collectExplicitlyTouchedLines
                 [\<lparr>spec = Single \<lparr>line = 1, hash = js ''5f''\<rparr>, dstLines = [js ''X'']\<rparr>])
              \<lparr>fileLines = [js ''aaa''], firstChangedLine = None, noopEdits = []\<rparr>
              (annotate \<lparr>spec = Single \<lparr>line = 1, hash = js ''5f''\<rparr>, dstLines = [js ''X'']\<rparr> 0)
            = \<lparr>fileLines = [js ''X''], firstChangedLine = Some 1, noopEdits = []\<rparr>"
    using mg rr
    by (simp add: applyEdit_def collectExplicitlyTouchedLines_def slice_def splice_def
          trackFirstChanged_def Let_def) (simp add: str_defs)
  have r: "applyHashlineEdits xxHash32 (js ''aaa'')
         [ReplaceLinesEdit (js ''1:5f'') (js ''1:ff'') (js ''X'')]
       = Inr \<lparr>content = js ''X'', resultFirstChangedLine = Some 1, warnings = [],
              resultNoopEdits = []\<rparr>"
    using applyHashlineEdits_single[OF ps[THEN conjunct1] ve]
    unfolding sl ap
    by (simp add: singleResult_def diffLineCount_def joinLF_def)
  show ?thesis by (intro conjI ps[THEN conjunct2] linesWithHash_ff_aaa r)
qed

subsection \<open>A single \<open>set_line\<close> edit\<close>

lemma validateOrRelocateRef_in_range:
  assumes "validateOrRelocateRef xxh flines ref = Inr (ref', st, [])"
  shows "1 \<le> line ref' \<and> line ref' \<le> length flines"
proof (cases "computeLineHash xxh (flines ! (line ref - 1)) = toLowerCase (hash ref)")
  case True
  with assms show ?thesis
    by (simp add: validateOrRelocateRef_def Let_def split: if_splits)
next
  case False
  from assms have r: "\<not> (line ref < 1 \<or> line ref > length flines)"
    by (simp add: validateOrRelocateRef_def split: if_splits)
  show ?thesis
  proof (cases "uniqueLineByHash xxh flines (toLowerCase (hash ref))")
    case None
    with assms False r show ?thesis by (simp add: validateOrRelocateRef_def Let_def)
  next
    case (Some k)
    with assms False r have ref': "ref' = ref\<lparr>line := k\<rparr>"
      by (simp add: validateOrRelocateRef_def Let_def)
    from Some have "k \<in> set (linesWithHash xxh (toLowerCase (hash ref)) flines 1)"
      by (simp add: uniqueLineByHash_lookup split: list.splits)
    from linesWithHash_mem[OF this] show ?thesis unfolding ref' by simp
  qed
qed

lemma validateEdit_single:
  assumes "validateEdit xxh flines p = Inr (p', [])" and "spec p = Single r"
  shows "\<exists>ref. spec p' = Single ref \<and> dstLines p' = dstLines p
               \<and> 1 \<le> line ref \<and> line ref \<le> length flines"
proof (cases "validateOrRelocateRef xxh flines r")
  case (Inl e)
  with assms show ?thesis by (simp add: validateEdit_def)
next
  case (Inr t)
  obtain ref' st ms where t: "t = (ref', st, ms)" by (cases t) auto
  from assms Inr t have p': "p' = p\<lparr>spec := Single ref'\<rparr>" and ms: "ms = []"
    by (simp_all add: validateEdit_def)
  from validateOrRelocateRef_in_range[of xxh flines r ref' st] Inr t ms
  have "1 \<le> line ref' \<and> line ref' \<le> length flines" by simp
  then show ?thesis unfolding p' by simp
qed

lemma slice_one: "1 \<le> n \<Longrightarrow> n \<le> length xs \<Longrightarrow> slice xs (n - 1) n = [xs ! (n - 1)]"
proof -
  assume a: "1 \<le> n" "n \<le> length xs"
  then have "n - (n - 1) = 1" by simp
  moreover have "take 1 (drop (n - 1) xs) = [xs ! (n - 1)]"
    using a by (cases "drop (n - 1) xs") (auto simp: take_Suc_conv_app_nth hd_drop_conv_nth
                 dest: arg_cong[where f = hd])
  ultimately show ?thesis by (simp add: slice_def)
qed

lemma applyEdit_single_plain:
  assumes "spec p' = Single ref" and "1 \<le> line ref" and "line ref \<le> length flines"
    and "maybeExpandSingleLineMerge flines T (line ref) (dstLines p') = None"
    and "joinLF (resolveReplacement flines (line ref) (line ref) (dstLines p'))
           \<noteq> flines ! (line ref - 1)"
  shows "applyEdit flines T \<lparr>fileLines = flines, firstChangedLine = None, noopEdits = []\<rparr>
           (annotate p' 0)
         = \<lparr>fileLines = take (line ref - 1) flines
                          @ resolveReplacement flines (line ref) (line ref) (dstLines p')
                          @ drop (line ref) flines,
            firstChangedLine = Some (line ref), noopEdits = []\<rparr>"
proof -
  have j: "joinLF (slice flines (line ref - 1) (line ref)) = flines ! (line ref - 1)"
    using slice_one[OF assms(2,3)] by (simp add: joinLF_def)
  have n: "line ref - 1 + 1 = line ref" using assms(2) by simp
  show ?thesis
    using assms(1,4,5) j n
    by (simp add: applyEdit_def Let_def splice_def trackFirstChanged_def)
qed


lemma splitLF_nonempty [simp]: "splitLF c \<noteq> []"
  by (induction c) simp_all

lemma splitLF_no_LF: "x \<in> set (splitLF c) \<Longrightarrow> LF \<notin> set x"
proof (induction c arbitrary: x)
  case Nil then show ?case by simp
next
  case (Cons a c)
  obtain y ys where ys: "splitLF c = y # ys" by (cases "splitLF c") simp_all
  from Cons.prems ys Cons.IH[of y] Cons.IH[of x] show ?case
    by (auto split: if_splits)
qed

lemma splitLF_append_no_LF:
  "LF \<notin> set x \<Longrightarrow> splitLF (x @ c) = (x @ hd (splitLF c)) # tl (splitLF c)"
  by (induction x) auto

lemma splitLF_line: "LF \<notin> set x \<Longrightarrow> splitLF x = [x]"
  using splitLF_append_no_LF[of x "[]"] by simp

lemma splitLF_joinLF:
  "xs \<noteq> [] \<Longrightarrow> \<forall>x \<in> set xs. LF \<notin> set x \<Longrightarrow> splitLF (joinLF xs) = xs"
proof (induction xs rule: induct_list012)
  case 1 then show ?case by simp
next
  case (2 x) then show ?case by (simp add: joinLF_def splitLF_line)
next
  case (3 x y ys)
  from "3.IH"(2) "3.prems" have ih: "splitLF (joinLF (y # ys)) = y # ys" by simp
  have "splitLF (joinLF (x # y # ys)) = splitLF (x @ LF # joinLF (y # ys))"
    by (simp add: joinLF_def)
  also have "\<dots> = x # splitLF (joinLF (y # ys))"
    using "3.prems" by (simp add: splitLF_append_no_LF)
  finally show ?case using ih by simp
qed

lemma joinLF_splitLF: "joinLF (splitLF c) = c"
proof (induction c)
  case Nil then show ?case by (simp add: joinLF_def)
next
  case (Cons a c)
  obtain y ys where ys: "splitLF c = y # ys" by (cases "splitLF c") simp_all
  show ?case
  proof (cases "a = LF")
    case True
    then show ?thesis using Cons.IH ys by (simp add: joinLF_def)
  next
    case False
    then show ?thesis using Cons.IH ys by (cases ys) (simp_all add: joinLF_def)
  qed
qed


subsection \<open>The resolved replacement lines contain no line feed\<close>

lemma matchHashlinePrefix_subset: "matchHashlinePrefix l = Some r \<Longrightarrow> set r \<subseteq> set l"
proof -
  assume a: "matchHashlinePrefix l = Some r"
  then obtain c q where q: "dropWhile isDigit l = c # q"
    by (cases "dropWhile isDigit l")
       (simp_all add: matchHashlinePrefix_def del: dropWhile_eq_Nil_conv split: if_splits)
  from a q obtain b where b: "dropWhile isAlnum q = b # r"
    by (cases "dropWhile isAlnum q")
       (simp_all add: matchHashlinePrefix_def Let_def del: dropWhile_eq_Nil_conv split: if_splits)
  have "set r \<subseteq> set (dropWhile isAlnum q)" unfolding b by auto
  also have "\<dots> \<subseteq> set q" by (auto dest: set_dropWhileD)
  also have "\<dots> \<subseteq> set (dropWhile isDigit l)" unfolding q by auto
  also have "\<dots> \<subseteq> set l" by (auto dest: set_dropWhileD)
  finally show ?thesis .
qed

lemma stripNewLinePrefixes_no_LF:
  assumes "\<forall>l \<in> set xs. LF \<notin> set l"
  shows "\<forall>l \<in> set (stripNewLinePrefixes xs). LF \<notin> set l"
proof -
  have a: "LF \<notin> set (case matchHashlinePrefix l of Some r \<Rightarrow> r | None \<Rightarrow> l)" if "l \<in> set xs" for l
    using that assms matchHashlinePrefix_subset[of l] by (auto split: option.splits)
  have b: "LF \<notin> set (if matchesDiffPlus l then tl l else l)" if "l \<in> set xs" for l
  proof -
    have "set (tl l) \<subseteq> set l" by (cases l) auto
    then show ?thesis using that assms by auto
  qed
  have m: "LF \<notin> set (if sh then (case matchHashlinePrefix k of Some r \<Rightarrow> r | None \<Rightarrow> k)
                       else if sp then (if matchesDiffPlus k then tl k else k) else k)"
    if "k \<in> set xs" for sh sp k
  proof (cases sh)
    case True then show ?thesis using a[OF that] by simp
  next
    case False then show ?thesis using b[OF that] assms that by (cases sp) simp_all
  qed
  have "stripNewLinePrefixes xs = xs
        \<or> (\<exists>sh sp. stripNewLinePrefixes xs
              = map (\<lambda>l. if sh then (case matchHashlinePrefix l of Some r \<Rightarrow> r | None \<Rightarrow> l)
                         else if sp then (if matchesDiffPlus l then tl l else l)
                         else l) xs)"
    unfolding stripNewLinePrefixes_def Let_def
    by (simp only: split: if_split) blast
  then consider (same) "stripNewLinePrefixes xs = xs"
    | (mapped) sh sp where "stripNewLinePrefixes xs
              = map (\<lambda>l. if sh then (case matchHashlinePrefix l of Some r \<Rightarrow> r | None \<Rightarrow> l)
                         else if sp then (if matchesDiffPlus l then tl l else l)
                         else l) xs"
    by blast
  then show ?thesis
  proof cases
    case same then show ?thesis using assms by simp
  next
    case mapped show ?thesis unfolding mapped set_map using m by blast
  qed
qed

lemma splitDstLines_no_LF: "\<forall>l \<in> set (splitDstLines d). LF \<notin> set l"
  using splitLF_no_LF by (auto simp: splitDstLines_def)

lemma stripRangeBoundaryEcho_subset: "set (stripRangeBoundaryEcho flines s e dst) \<subseteq> set dst"
  unfolding stripRangeBoundaryEcho_def Let_def
  by (auto dest: in_set_takeD in_set_dropD)

lemma canonToOld_mem:
  assumes "canonToOld ols c = Some (old, n)"
  shows "old \<in> set ols"
proof -
  define f :: "(jsstring \<rightharpoonup> jsstring \<times> nat) \<Rightarrow> jsstring \<Rightarrow> (jsstring \<rightharpoonup> jsstring \<times> nat)"
    where "f = (\<lambda>m l. (let c = stripAllWhitespace l in
                     case m c of
                       Some (first, n) \<Rightarrow> m(c \<mapsto> (first, n + 1))
                     | None \<Rightarrow> m(c \<mapsto> (l, 1))))"
  have step: "\<forall>c old n. f m x c = Some (old, n) \<longrightarrow> old \<in> S"
    if "\<forall>c old n. m c = Some (old, n) \<longrightarrow> old \<in> S" and "x \<in> S" for m x and S :: "jsstring set"
    using that unfolding f_def Let_def by (auto split: option.splits if_splits)
  have inv: "(\<forall>c old n. m c = Some (old, n) \<longrightarrow> old \<in> S) \<Longrightarrow> set xs \<subseteq> S
               \<Longrightarrow> (\<forall>c old n. foldl f m xs c = Some (old, n) \<longrightarrow> old \<in> S)"
    for m xs and S :: "jsstring set"
  proof (induction xs arbitrary: m)
    case Nil then show ?case by simp
  next
    case (Cons x xs)
    have "\<forall>c old n. f m x c = Some (old, n) \<longrightarrow> old \<in> S"
      by (rule step) (use Cons.prems in auto)
    from Cons.IH[OF this] Cons.prems(2) show ?case by simp
  qed
  have e: "\<forall>c old n. Map.empty c = Some (old, n) \<longrightarrow> old \<in> set ols" by simp
  have eq: "canonToOld ols = foldl f Map.empty ols" unfolding canonToOld_def f_def ..
  have g: "foldl f Map.empty ols c = Some (old, n)" using assms unfolding eq .
  from inv[OF e subset_refl, rule_format, OF g] show ?thesis .
qed

lemma wrapCandidates_replacement:
  assumes "c \<in> set (wrapCandidates ols nls)"
  shows "replacement c \<in> set ols"
proof -
  define g where "g = (\<lambda>s n.
         if s + n \<le> length nls
         then (let canonSpan = stripAllWhitespace (concat (take n (drop s nls))) in
               case canonToOld ols canonSpan of
                 Some (old, cnt) \<Rightarrow>
                   if cnt = 1 \<and> length canonSpan \<ge> 6
                   then [\<lparr>start = s, len = n, replacement = old, canon = canonSpan\<rparr>]
                   else []
               | None \<Rightarrow> [])
         else [])"
  have w: "wrapCandidates ols nls
             = concat (map (\<lambda>s. concat (map (\<lambda>n. g s n) [2..<11])) [0..<length nls])"
    unfolding wrapCandidates_def g_def ..
  from assms obtain s where "c \<in> set (concat (map (\<lambda>n. g s n) [2..<11]))"
    unfolding w by (auto simp only: set_concat set_map)
  then obtain n where m: "c \<in> set (g s n)"
    by (auto simp only: set_concat set_map)
  show ?thesis
  proof (cases "canonToOld ols (stripAllWhitespace (concat (take n (drop s nls))))")
    case None
    show ?thesis using m None by (simp add: g_def Let_def split: if_splits)
  next
    case (Some p)
    obtain old cnt where p: "p = (old, cnt)" by (cases p)
    have "c = \<lparr>start = s, len = n, replacement = old,
                         canon = stripAllWhitespace (concat (take n (drop s nls)))\<rparr>"
      using m Some by (simp add: g_def Let_def p split: if_splits)
    then have "replacement c = old" by simp
    with canonToOld_mem[OF Some[unfolded p]] show ?thesis by simp
  qed
qed

lemma set_insertByStart: "set (insertByStart c ds) = insert c (set ds)"
  by (induction ds) auto

lemma set_sortByStartDesc: "set (sortByStartDesc cs) = set cs"
proof -
  have "set (foldl (\<lambda>acc c. insertByStart c acc) acc cs) = set acc \<union> set cs" for acc
    by (induction cs arbitrary: acc) (auto simp: set_insertByStart)
  then show ?thesis by (simp add: sortByStartDesc_def)
qed

lemma set_splice: "set (splice xs s d items) \<subseteq> set xs \<union> set items"
  by (auto simp: splice_def dest: in_set_takeD in_set_dropD)

lemma foldl_splice_subset:
  "set (foldl (\<lambda>out c. splice out (start c) (len c) [replacement c]) nls cs)
     \<subseteq> set nls \<union> replacement ` set cs"
proof (induction cs arbitrary: nls)
  case Nil then show ?case by simp
next
  case (Cons c cs)
  have "set (foldl (\<lambda>out c. splice out (start c) (len c) [replacement c])
               (splice nls (start c) (len c) [replacement c]) cs)
          \<subseteq> set (splice nls (start c) (len c) [replacement c]) \<union> replacement ` set cs"
    by (rule Cons.IH)
  also have "\<dots> \<subseteq> set nls \<union> replacement ` set (c # cs)"
    using set_splice[of nls "start c" "len c" "[replacement c]"] by auto
  finally show ?case by simp
qed

lemma restoreOldWrappedLines_subset:
  "set (restoreOldWrappedLines ols nls) \<subseteq> set nls \<union> set ols"
proof -
  define cands where "cands = wrapCandidates ols nls"
  define u where "u = filter (\<lambda>c. length (filter (\<lambda>d. canon d = canon c) cands) = 1) cands"
  have us: "set u \<subseteq> set cands" unfolding u_def by (rule filter_is_subset)
  have "set (foldl (\<lambda>out c. splice out (start c) (len c) [replacement c]) nls (sortByStartDesc u))
          \<subseteq> set nls \<union> replacement ` set u"
    using foldl_splice_subset[of nls "sortByStartDesc u"] by (simp only: set_sortByStartDesc)
  also have "\<dots> \<subseteq> set nls \<union> set ols"
    using wrapCandidates_replacement[of _ ols nls] us unfolding cands_def by blast
  finally have f: "set (foldl (\<lambda>out c. splice out (start c) (len c) [replacement c]) nls
                          (sortByStartDesc u)) \<subseteq> set nls \<union> set ols" .
  have "restoreOldWrappedLines ols nls = nls
        \<or> restoreOldWrappedLines ols nls
            = foldl (\<lambda>out c. splice out (start c) (len c) [replacement c]) nls (sortByStartDesc u)"
    unfolding restoreOldWrappedLines_def Let_def u_def cands_def
    by (simp only: split: if_split) blast
  then show ?thesis using f by auto
qed

lemma restoreLeadingIndent_no_LF:
  "LF \<notin> set old \<Longrightarrow> LF \<notin> set new \<Longrightarrow> LF \<notin> set (restoreLeadingIndent old new)"
  by (auto simp: restoreLeadingIndent_def leadingWhitespace_def Let_def dest: set_takeWhileD)

lemma restoreIndentForPairedReplacement_no_LF:
  assumes "\<forall>l \<in> set ols. LF \<notin> set l" and "\<forall>l \<in> set nls. LF \<notin> set l"
  shows "\<forall>l \<in> set (restoreIndentForPairedReplacement ols nls). LF \<notin> set l"
proof -
  have m: "\<forall>l \<in> set (map (\<lambda>(old, new). restoreLeadingIndent old new) (zip ols nls)). LF \<notin> set l"
  proof
    fix l assume "l \<in> set (map (\<lambda>(old, new). restoreLeadingIndent old new) (zip ols nls))"
    then obtain a b where ab: "(a, b) \<in> set (zip ols nls)" and l: "l = restoreLeadingIndent a b"
      by auto
    from ab have "a \<in> set ols" "b \<in> set nls" by (auto dest: set_zip_leftD set_zip_rightD)
    with assms show "LF \<notin> set l" unfolding l by (intro restoreLeadingIndent_no_LF) auto
  qed
  have "restoreIndentForPairedReplacement ols nls = nls
        \<or> restoreIndentForPairedReplacement ols nls
            = map (\<lambda>(old, new). restoreLeadingIndent old new) (zip ols nls)"
    unfolding restoreIndentForPairedReplacement_def Let_def
    by (simp only: split: if_split) blast
  then show ?thesis using m assms(2) by auto
qed

lemma hyphenFallback_no_LF:
  assumes "\<forall>l \<in> set nls. LF \<notin> set l"
  shows "\<forall>l \<in> set (hyphenFallback ols nls). LF \<notin> set l"
proof -
  have "LF \<notin> set (normalizeConfusableHyphens l)" if "LF \<notin> set l" for l
    using that by (auto simp: normalizeConfusableHyphens_def LF_def)
  then show ?thesis using assms
    by (auto simp: hyphenFallback_def normalizeConfusableHyphensInLines_def)
qed

lemma resolveReplacement_no_LF:
  assumes "\<forall>l \<in> set flines. LF \<notin> set l" and "\<forall>l \<in> set dst. LF \<notin> set l"
  shows "\<forall>l \<in> set (resolveReplacement flines s e dst). LF \<notin> set l"
proof -
  let ?o = "slice flines (s - 1) e"
  have o: "\<forall>l \<in> set ?o. LF \<notin> set l"
    using assms(1) by (auto simp: slice_def dest: in_set_takeD in_set_dropD)
  have a: "\<forall>l \<in> set (stripRangeBoundaryEcho flines s e dst). LF \<notin> set l"
    using assms(2) stripRangeBoundaryEcho_subset[of flines s e dst] by blast
  have b: "\<forall>l \<in> set (restoreOldWrappedLines ?o (stripRangeBoundaryEcho flines s e dst)). LF \<notin> set l"
    using a o restoreOldWrappedLines_subset[of ?o "stripRangeBoundaryEcho flines s e dst"] by blast
  show ?thesis
    unfolding resolveReplacement_def Let_def
    by (intro hyphenFallback_no_LF restoreIndentForPairedReplacement_no_LF o b)
qed

text \<open>
  Claim C9, amended. Let a single \<open>set_line\<close> edit pass validation with its anchor at
  the line \<open>line ref\<close> (relocated or not), let the merge expansion not apply to it, and
  let its resolved replacement differ from the targeted line. Then the edit succeeds and
  the new text consists of the lines before the targeted line, the resolved replacement
  lines and the lines after the targeted line, in this order: every other line is kept as
  it is, with its fingerprint, and the lines after the targeted one move when the
  replacement is not exactly one line. (Only when the replacement is empty and the file
  has one line, the new text is empty, which reads back as one empty line.) (When the merge expansion applies, the targeted
  line and its neighbour are both replaced.)
\<close>

theorem set_line_changes_only_target:
  assumes "parseHashlineEdit (SetLineEdit anchor newText) = Inr (sp, dst)"
    and "validateEdit xxh (splitLF c)
           \<lparr>spec = sp, dstLines = stripNewLinePrefixes (splitDstLines dst)\<rparr> = Inr (p', [])"
    and "spec p' = Single ref"
    and "maybeExpandSingleLineMerge (splitLF c) {line ref} (line ref) (dstLines p') = None"
    and "resolveReplacement (splitLF c) (line ref) (line ref) (dstLines p') = resolved"
    and "joinLF resolved \<noteq> splitLF c ! (line ref - 1)"
  shows "1 \<le> line ref \<and> line ref \<le> length (splitLF c)
       \<and> (\<exists>r. applyHashlineEdits xxh c [SetLineEdit anchor newText] = Inr r
              \<and> content r = joinLF (take (line ref - 1) (splitLF c) @ resolved
                                       @ drop (line ref) (splitLF c))
              \<and> resultFirstChangedLine r = Some (line ref)
              \<and> resultNoopEdits r = []
              \<and> (resolved \<noteq> [] \<or> 1 < length (splitLF c)
                   \<longrightarrow> splitLF (content r)
                         = take (line ref - 1) (splitLF c) @ resolved @ drop (line ref) (splitLF c)
                       \<and> map (computeLineHash xxh) (take (line ref - 1) (splitLF (content r)))
                         = map (computeLineHash xxh) (take (line ref - 1) (splitLF c))
                       \<and> map (computeLineHash xxh)
                             (drop (line ref - 1 + length resolved) (splitLF (content r)))
                         = map (computeLineHash xxh) (drop (line ref) (splitLF c))))"
proof -
  let ?L = "splitLF c"
  let ?new = "take (line ref - 1) ?L @ resolved @ drop (line ref) ?L"
  from assms(1) obtain r0 where sp: "sp = Single r0"
    by (auto simp: parseHashlineEdit_def split: sum.splits)
  from validateEdit_single[OF assms(2)] sp assms(3)
  have rg: "1 \<le> line ref" "line ref \<le> length ?L" by auto
  from validateEdit_single[OF assms(2)] sp
  have dl: "dstLines p' = stripNewLinePrefixes (splitDstLines dst)" by auto
  have rl: "\<forall>l \<in> set resolved. LF \<notin> set l"
    unfolding assms(5)[symmetric] dl
    by (intro resolveReplacement_no_LF stripNewLinePrefixes_no_LF splitDstLines_no_LF ballI
          splitLF_no_LF)
  have tl: "collectExplicitlyTouchedLines [p'] = {line ref}"
    by (simp add: collectExplicitlyTouchedLines_def assms(3))
  have ap: "applyEdit ?L (collectExplicitlyTouchedLines [p'])
              \<lparr>fileLines = ?L, firstChangedLine = None, noopEdits = []\<rparr> (annotate p' 0)
            = \<lparr>fileLines = ?new, firstChangedLine = Some (line ref), noopEdits = []\<rparr>"
    unfolding tl
    using applyEdit_single_plain[OF assms(3) rg, of "{line ref}"] assms(4,5,6) by simp
  let ?r = "singleResult ?L \<lparr>fileLines = ?new, firstChangedLine = Some (line ref), noopEdits = []\<rparr>"
  have res: "applyHashlineEdits xxh c [SetLineEdit anchor newText] = Inr ?r"
    using applyHashlineEdits_single[OF assms(1,2)] unfolding ap .
  have c1: "content ?r = joinLF ?new" by (simp add: singleResult_def)
  have c2: "resultFirstChangedLine ?r = Some (line ref)" by (simp add: singleResult_def)
  have c3: "resultNoopEdits ?r = []" by (simp add: singleResult_def)
  have c4: "resolved \<noteq> [] \<or> 1 < length ?L
              \<longrightarrow> splitLF (content ?r) = ?new
                  \<and> map (computeLineHash xxh) (take (line ref - 1) (splitLF (content ?r)))
                    = map (computeLineHash xxh) (take (line ref - 1) ?L)
                  \<and> map (computeLineHash xxh)
                        (drop (line ref - 1 + length resolved) (splitLF (content ?r)))
                    = map (computeLineHash xxh) (drop (line ref) ?L)"
  proof
    assume h: "resolved \<noteq> [] \<or> 1 < length ?L"
    have ne: "?new \<noteq> []"
    proof (cases "resolved = []")
      case False then show ?thesis by simp
    next
      case True
      with h have "1 < length ?L" by simp
      then have "take (line ref - 1) ?L \<noteq> [] \<or> drop (line ref) ?L \<noteq> []"
        using rg by (cases "line ref = 1") auto
      then show ?thesis by auto
    qed
    have nl: "\<forall>x \<in> set ?new. LF \<notin> set x"
    proof
      fix x assume "x \<in> set ?new"
      then have "x \<in> set ?L \<or> x \<in> set resolved"
        by (auto dest: in_set_takeD in_set_dropD)
      then show "LF \<notin> set x" using rl splitLF_no_LF by blast
    qed
    have s: "splitLF (content ?r) = ?new"
      unfolding c1 by (rule splitLF_joinLF[OF ne nl])
    have lt: "length (take (line ref - 1) ?L) = line ref - 1" using rg by simp
    have t: "take (line ref - 1) ?new = take (line ref - 1) ?L" using lt by simp
    have d: "drop (line ref - 1 + length resolved) ?new = drop (line ref) ?L"
      using lt by (simp add: drop_append)
    show "splitLF (content ?r) = ?new
            \<and> map (computeLineHash xxh) (take (line ref - 1) (splitLF (content ?r)))
              = map (computeLineHash xxh) (take (line ref - 1) ?L)
            \<and> map (computeLineHash xxh)
                  (drop (line ref - 1 + length resolved) (splitLF (content ?r)))
              = map (computeLineHash xxh) (drop (line ref) ?L)"
      unfolding s t d by simp
  qed
  have ex: "\<exists>r. applyHashlineEdits xxh c [SetLineEdit anchor newText] = Inr r
              \<and> content r = joinLF ?new
              \<and> resultFirstChangedLine r = Some (line ref)
              \<and> resultNoopEdits r = []
              \<and> (resolved \<noteq> [] \<or> 1 < length ?L
                   \<longrightarrow> splitLF (content r) = ?new
                       \<and> map (computeLineHash xxh) (take (line ref - 1) (splitLF (content r)))
                         = map (computeLineHash xxh) (take (line ref - 1) ?L)
                       \<and> map (computeLineHash xxh)
                             (drop (line ref - 1 + length resolved) (splitLF (content r)))
                         = map (computeLineHash xxh) (drop (line ref) ?L))"
    by (rule exI[of _ ?r]) (intro conjI res c1 c2 c3 c4)
  show ?thesis by (intro conjI rg ex)
qed


theorem set_line_changes_only_target_witness:
  "parseHashlineEdit (SetLineEdit (js ''2:5f'') (js ''AAA'')) = Inr (Single \<lparr>line = 2, hash = js ''5f''\<rparr>, js ''AAA'')
   \<and> validateEdit xxHash32 (splitLF (joinLF [js ''zzz'', js ''aaa'', js ''bbb'', js ''ccc'']))
         \<lparr>spec = Single \<lparr>line = 2, hash = js ''5f''\<rparr>, dstLines = stripNewLinePrefixes (splitDstLines (js ''AAA''))\<rparr>
       = Inr (\<lparr>spec = Single \<lparr>line = 2, hash = js ''5f''\<rparr>, dstLines = [js ''AAA'']\<rparr>, [])
   \<and> maybeExpandSingleLineMerge (splitLF (joinLF [js ''zzz'', js ''aaa'', js ''bbb'', js ''ccc''])) {2} 2 [js ''AAA''] = None
   \<and> resolveReplacement (splitLF (joinLF [js ''zzz'', js ''aaa'', js ''bbb'', js ''ccc''])) 2 2 [js ''AAA''] = [js ''AAA'']
   \<and> (\<exists>r. applyHashlineEdits xxHash32 (joinLF [js ''zzz'', js ''aaa'', js ''bbb'', js ''ccc'']) [SetLineEdit (js ''2:5f'') (js ''AAA'')] = Inr r
          \<and> content r = joinLF [js ''zzz'', js ''AAA'', js ''bbb'', js ''ccc'']
          \<and> splitLF (content r) = [js ''zzz'', js ''AAA'', js ''bbb'', js ''ccc'']
          \<and> resultFirstChangedLine r = Some 2)"
proof -
  have pe: "parseHashlineEdit (SetLineEdit (js ''2:5f'') (js ''AAA'')) = Inr (Single \<lparr>line = 2, hash = js ''5f''\<rparr>, js ''AAA'')"
    by (simp add: parse_defs str_defs)
  have dst: "stripNewLinePrefixes (splitDstLines (js ''AAA'')) = [js ''AAA'']"
    by (simp add: parse_defs str_defs)
  have lw: "toLowerCase (js ''5f'') = js ''5f''" by (simp add: toLowerCase_def js_def)
  have ve: "validateEdit xxHash32 (splitLF (joinLF [js ''zzz'', js ''aaa'', js ''bbb'', js ''ccc'']))
              \<lparr>spec = Single \<lparr>line = 2, hash = js ''5f''\<rparr>, dstLines = stripNewLinePrefixes (splitDstLines (js ''AAA''))\<rparr>
            = Inr (\<lparr>spec = Single \<lparr>line = 2, hash = js ''5f''\<rparr>, dstLines = [js ''AAA'']\<rparr>, [])"
    unfolding split_zabc dst
    by (simp add: validateEdit_def validateOrRelocateRef_def lw hashes_zabc Let_def)
  have mg: "maybeExpandSingleLineMerge (splitLF (joinLF [js ''zzz'', js ''aaa'', js ''bbb'', js ''ccc''])) {2} 2 [js ''AAA''] = None"
    unfolding split_zabc
    by (simp add: maybeExpandSingleLineMerge_def stripAllWhitespace_def
          stripTrailingContinuationTokens_def stripMergeOperatorChars_def continuationChars_def
          indexOf_def str_defs Let_def)
  have rr: "resolveReplacement (splitLF (joinLF [js ''zzz'', js ''aaa'', js ''bbb'', js ''ccc''])) 2 2 [js ''AAA''] = [js ''AAA'']"
    unfolding split_zabc
    by (simp add: resolveReplacement_def slice_def stripRangeBoundaryEcho_def
          restoreOldWrappedLines_def restoreIndentForPairedReplacement_def restoreLeadingIndent_def
          leadingWhitespace_def hyphenFallback_def str_defs Let_def)
  have sp: "spec \<lparr>spec = Single \<lparr>line = 2, hash = js ''5f''\<rparr>, dstLines = [js ''AAA'']\<rparr> = Single \<lparr>line = 2, hash = js ''5f''\<rparr>" by simp
  have l2: "line \<lparr>line = 2, hash = js ''5f''\<rparr> = 2" by simp
  have d2: "dstLines \<lparr>spec = Single \<lparr>line = 2, hash = js ''5f''\<rparr>, dstLines = [js ''AAA'']\<rparr> = [js ''AAA'']" by simp
  have ne: "joinLF [js ''AAA''] \<noteq> splitLF (joinLF [js ''zzz'', js ''aaa'', js ''bbb'', js ''ccc'']) ! (2 - 1)"
    unfolding split_zabc by (simp add: str_defs)
  note T = set_line_changes_only_target[OF pe ve sp, unfolded l2 d2, OF mg rr ne]
  from T obtain r where
    r: "applyHashlineEdits xxHash32 (joinLF [js ''zzz'', js ''aaa'', js ''bbb'', js ''ccc'']) [SetLineEdit (js ''2:5f'') (js ''AAA'')] = Inr r"
    and c: "content r = joinLF (take (2 - 1) (splitLF (joinLF [js ''zzz'', js ''aaa'', js ''bbb'', js ''ccc''])) @ [js ''AAA'']
                                 @ drop 2 (splitLF (joinLF [js ''zzz'', js ''aaa'', js ''bbb'', js ''ccc''])))"
    and f: "resultFirstChangedLine r = Some 2"
    and i: "[js ''AAA''] \<noteq> [] \<or> 1 < length (splitLF (joinLF [js ''zzz'', js ''aaa'', js ''bbb'', js ''ccc'']))
            \<longrightarrow> splitLF (content r)
                  = take (2 - 1) (splitLF (joinLF [js ''zzz'', js ''aaa'', js ''bbb'', js ''ccc''])) @ [js ''AAA''] @ drop 2 (splitLF (joinLF [js ''zzz'', js ''aaa'', js ''bbb'', js ''ccc'']))
                \<and> map (computeLineHash xxHash32) (take (2 - 1) (splitLF (content r)))
                  = map (computeLineHash xxHash32) (take (2 - 1) (splitLF (joinLF [js ''zzz'', js ''aaa'', js ''bbb'', js ''ccc''])))
                \<and> map (computeLineHash xxHash32)
                      (drop (2 - 1 + length [js ''AAA'']) (splitLF (content r)))
                  = map (computeLineHash xxHash32) (drop 2 (splitLF (joinLF [js ''zzz'', js ''aaa'', js ''bbb'', js ''ccc''])))"
    by blast
  have nl: "[js ''AAA''] \<noteq> [] \<or> 1 < length (splitLF (joinLF [js ''zzz'', js ''aaa'', js ''bbb'', js ''ccc'']))"
    by simp
  have c': "content r = joinLF [js ''zzz'', js ''AAA'', js ''bbb'', js ''ccc'']" using c unfolding split_zabc by simp
  have s': "splitLF (content r) = [js ''zzz'', js ''AAA'', js ''bbb'', js ''ccc'']"
    using i[THEN mp, OF nl, THEN conjunct1] unfolding split_zabc by simp
  have ex: "\<exists>r. applyHashlineEdits xxHash32 (joinLF [js ''zzz'', js ''aaa'', js ''bbb'', js ''ccc'']) [SetLineEdit (js ''2:5f'') (js ''AAA'')] = Inr r
          \<and> content r = joinLF [js ''zzz'', js ''AAA'', js ''bbb'', js ''ccc'']
          \<and> splitLF (content r) = [js ''zzz'', js ''AAA'', js ''bbb'', js ''ccc'']
          \<and> resultFirstChangedLine r = Some 2"
    by (rule exI[of _ r]) (intro conjI r c' s' f)
  show ?thesis by (intro conjI pe ve mg rr ex)
qed

subsection \<open>A merge expansion removes the neighbour line\<close>

lemma xx_amp: "xxHash32 [0x61, 0x26, 0x26] = 3486502954" by (simp add: xx_defs)
lemma xx_b: "xxHash32 [0x62] = 2718739903" by (simp add: xx_defs)
lemma xx_ampb: "xxHash32 [0x61, 0x26, 0x26, 0x62] = 1916291804" by (simp add: xx_defs)

lemma hashes_amp:
  "computeLineHash xxHash32 (js ''a &&'') = js ''2a''"
  "computeLineHash xxHash32 (js ''b'') = js ''bf''"
  "computeLineHash xxHash32 (js ''a && b'') = js ''dc''"
  by (simp_all add: computeLineHash_eq hexDigit_def stripAllWhitespace_def stripTrailingCR_def
        xx_amp xx_b xx_ampb str_defs)

text \<open>
  As stated, claim C9 fails when the merge expansion applies: in the file with the lines
  \<open>a &&\<close> and \<open>b\<close> the edit of line 1 to \<open>a && b\<close> replaces both lines, so the
  line \<open>b\<close> with the fingerprint \<open>bf\<close> is no longer in the file.
\<close>

theorem set_line_merge_counterexample:
  "splitLF (joinLF [js ''a &&'', js ''b'']) = [js ''a &&'', js ''b'']
   \<and> computeLineHash xxHash32 (js ''a &&'') = js ''2a''
   \<and> computeLineHash xxHash32 (js ''b'') = js ''bf''
   \<and> computeLineHash xxHash32 (js ''a && b'') = js ''dc''
   \<and> applyHashlineEdits xxHash32 (joinLF [js ''a &&'', js ''b''])
         [SetLineEdit (js ''1:2a'') (js ''a && b'')]
       = Inr \<lparr>content = js ''a && b'', resultFirstChangedLine = Some 1, warnings = [],
              resultNoopEdits = []\<rparr>
   \<and> splitLF (js ''a && b'') = [js ''a && b'']"
proof -
  have sl: "splitLF (joinLF [js ''a &&'', js ''b'']) = [js ''a &&'', js ''b'']"
    by (simp add: str_defs)
  have sl2: "splitLF (js ''a && b'') = [js ''a && b'']" by (simp add: str_defs)
  have pe: "parseHashlineEdit (SetLineEdit (js ''1:2a'') (js ''a && b''))
              = Inr (Single \<lparr>line = 1, hash = js ''2a''\<rparr>, js ''a && b'')"
    by (simp add: parse_defs str_defs)
  have dst: "stripNewLinePrefixes (splitDstLines (js ''a && b'')) = [js ''a && b'']"
    by (simp add: parse_defs str_defs)
  have lw: "toLowerCase (js ''2a'') = js ''2a''" by (simp add: toLowerCase_def js_def)
  have ve: "validateEdit xxHash32 (splitLF (joinLF [js ''a &&'', js ''b'']))
              \<lparr>spec = Single \<lparr>line = 1, hash = js ''2a''\<rparr>,
               dstLines = stripNewLinePrefixes (splitDstLines (js ''a && b''))\<rparr>
            = Inr (\<lparr>spec = Single \<lparr>line = 1, hash = js ''2a''\<rparr>, dstLines = [js ''a && b'']\<rparr>, [])"
    unfolding sl dst
    by (simp add: validateEdit_def validateOrRelocateRef_def lw hashes_amp Let_def)
  have mg: "maybeExpandSingleLineMerge [js ''a &&'', js ''b''] {1} 1 [js ''a && b'']
              = Some \<lparr>startLine = 1, deleteCount = 2, newLines = [js ''a && b'']\<rparr>"
    by (simp add: maybeExpandSingleLineMerge_def stripAllWhitespace_def
          stripTrailingContinuationTokens_def stripMergeOperatorChars_def continuationChars_def
          indexOf_def str_defs Let_def)
  have ri: "restoreIndentForPairedReplacement [js ''a &&''] [js ''a && b''] = [js ''a && b'']"
    by (simp add: restoreIndentForPairedReplacement_def restoreLeadingIndent_def
          leadingWhitespace_def str_defs Let_def)
  have hf: "hyphenFallback [js ''a &&'', js ''b''] [js ''a && b''] = [js ''a && b'']"
    by (simp add: hyphenFallback_def str_defs)
  have ap: "applyEdit [js ''a &&'', js ''b'']
              (collectExplicitlyTouchedLines
                 [\<lparr>spec = Single \<lparr>line = 1, hash = js ''2a''\<rparr>, dstLines = [js ''a && b'']\<rparr>])
              \<lparr>fileLines = [js ''a &&'', js ''b''], firstChangedLine = None, noopEdits = []\<rparr>
              (annotate \<lparr>spec = Single \<lparr>line = 1, hash = js ''2a''\<rparr>, dstLines = [js ''a && b'']\<rparr> 0)
            = \<lparr>fileLines = [js ''a && b''], firstChangedLine = Some 1, noopEdits = []\<rparr>"
    using mg ri hf
    by (simp add: applyEdit_def collectExplicitlyTouchedLines_def slice_def splice_def
          trackFirstChanged_def Let_def) (simp add: str_defs)
  have r: "applyHashlineEdits xxHash32 (joinLF [js ''a &&'', js ''b''])
         [SetLineEdit (js ''1:2a'') (js ''a && b'')]
       = Inr \<lparr>content = js ''a && b'', resultFirstChangedLine = Some 1, warnings = [],
              resultNoopEdits = []\<rparr>"
    using applyHashlineEdits_single[OF pe ve]
    unfolding sl ap
    by (simp add: singleResult_def diffLineCount_def joinLF_def)
  show ?thesis by (intro conjI sl hashes_amp r sl2)
qed

subsection \<open>Relocation of the ends of a range\<close>

lemma validateOrRelocateRef_Ok:
  assumes "validateOrRelocateRef xxh flines r = Inr (r', Ok b, ms)"
  shows "ms = [] \<and> r'\<lparr>line := line r\<rparr> = r \<and> (\<not> b \<longrightarrow> r' = r)"
proof (cases "computeLineHash xxh (flines ! (line r - 1)) = toLowerCase (hash r)")
  case True
  with assms show ?thesis by (simp add: validateOrRelocateRef_def Let_def split: if_splits)
next
  case False
  with assms show ?thesis
    by (cases "uniqueLineByHash xxh flines (toLowerCase (hash r))")
       (auto simp: validateOrRelocateRef_def Let_def split: if_splits)
qed

lemma validateOrRelocateRef_relocated_line:
  assumes "1 \<le> line ref" "line ref \<le> length flines"
    and "computeLineHash xxh (flines ! (line ref - 1)) \<noteq> toLowerCase (hash ref)"
    and "linesWithHash xxh (toLowerCase (hash ref)) flines 1 = [k]"
  shows "1 \<le> k \<and> k \<le> length flines \<and> k \<noteq> line ref
           \<and> computeLineHash xxh (flines ! (k - 1)) = toLowerCase (hash ref)"
proof -
  have "k \<in> set (linesWithHash xxh (toLowerCase (hash ref)) flines 1)" using assms(4) by simp
  from linesWithHash_mem[OF this]
  have a: "1 \<le> k" "k < 1 + length flines"
    and h: "computeLineHash xxh (flines ! (k - 1)) = toLowerCase (hash ref)" by simp_all
  from h assms(3) have "k \<noteq> line ref" by auto
  with a h show ?thesis by simp
qed

lemma validateEdit_range_rule:
  assumes le: "line s \<le> line e"
    and vs: "validateOrRelocateRef xxh flines s = Inr (s', Ok b1, m1)"
    and ve: "validateOrRelocateRef xxh flines e = Inr (e', Ok b2, m2)"
  shows "validateEdit xxh flines \<lparr>spec = Range s e, dstLines = D\<rparr>
           = (if int (line e') - int (line s') = int (line e) - int (line s)
              then Inr (\<lparr>spec = Range s' e', dstLines = D\<rparr>, [])
              else Inr (\<lparr>spec = Range s e, dstLines = D\<rparr>,
                        [buildMismatch xxh flines s (line s), buildMismatch xxh flines e (line e)]))"
proof -
  note os = validateOrRelocateRef_Ok[OF vs] and oe = validateOrRelocateRef_Ok[OF ve]
  have m: "m1 = []" "m2 = []" using os oe by simp_all
  have bs: "buildMismatch xxh flines (s'\<lparr>line := line s\<rparr>) (line s) = buildMismatch xxh flines s (line s)"
    and be: "buildMismatch xxh flines (e'\<lparr>line := line e\<rparr>) (line e) = buildMismatch xxh flines e (line e)"
    using os oe by simp_all
  have rs: "s'\<lparr>line := line s\<rparr> = s" and re: "e'\<lparr>line := line e\<rparr> = e" using os oe by simp_all
  show ?thesis
  proof (cases "int (line e') - int (line s') = int (line e) - int (line s)")
    case True
    then have ni: "\<not> line s' > line e'" using le by linarith
    show ?thesis
      using le True ni
      by (simp add: validateEdit_def vs ve Let_def relocatedStatus_def m)
  next
    case False
    have ch: "b1 \<or> b2"
    proof (rule ccontr)
      assume "\<not> (b1 \<or> b2)"
      then have "s' = s" "e' = e" using os oe by simp_all
      with False show False by simp
    qed
    show ?thesis
      using le False ch
      by (simp add: validateEdit_def vs ve Let_def relocatedStatus_def m bs be rs re)
  qed
qed

lemma validateEdit_range_failed:
  assumes le: "line s \<le> line e"
    and vs: "validateOrRelocateRef xxh flines s = Inr (s', st1, m1)"
    and ve: "validateOrRelocateRef xxh flines e = Inr (e', st2, m2)"
    and no: "st1 = NotOk \<or> st2 = NotOk"
  shows "validateEdit xxh flines \<lparr>spec = Range s e, dstLines = D\<rparr>
           = Inr (\<lparr>spec = Range s' e', dstLines = D\<rparr>, m1 @ m2)"
  using le no by (simp add: validateEdit_def vs ve Let_def)


lemma validateEdit_range_kept:
  assumes le: "line s \<le> line e"
    and ve: "validateEdit xxh flines \<lparr>spec = Range s e, dstLines = D\<rparr> = Inr (p', [])"
  shows "\<exists>s' e' b1 b2. p' = \<lparr>spec = Range s' e', dstLines = D\<rparr>
           \<and> validateOrRelocateRef xxh flines s = Inr (s', Ok b1, [])
           \<and> validateOrRelocateRef xxh flines e = Inr (e', Ok b2, [])
           \<and> int (line e') - int (line s') = int (line e) - int (line s)
           \<and> 1 \<le> line s' \<and> line s' \<le> line e' \<and> line e' \<le> length flines"
proof -
  from ve le obtain s' st1 m1 where vs: "validateOrRelocateRef xxh flines s = Inr (s', st1, m1)"
    by (cases "validateOrRelocateRef xxh flines s")
       (auto simp: validateEdit_def Let_def split: if_splits)
  from ve le vs obtain e' st2 m2 where vee: "validateOrRelocateRef xxh flines e = Inr (e', st2, m2)"
    by (cases "validateOrRelocateRef xxh flines e")
       (auto simp: validateEdit_def Let_def split: if_splits)
  have nn: "m \<noteq> []" if "validateOrRelocateRef xxh flines r = Inr (r', NotOk, m)" for r r' m
    using that
    by (auto simp: validateOrRelocateRef_def Let_def split: if_splits option.splits)
  have ok: "st1 \<noteq> NotOk \<and> st2 \<noteq> NotOk"
  proof (rule ccontr)
    assume "\<not> (st1 \<noteq> NotOk \<and> st2 \<noteq> NotOk)"
    then have no: "st1 = NotOk \<or> st2 = NotOk" by blast
    from validateEdit_range_failed[OF le vs vee no, of D] ve have "m1 @ m2 = []" by simp
    with no nn vs vee show False by auto
  qed
  then obtain b1 b2 where st: "st1 = Ok b1" "st2 = Ok b2"
    by (cases st1; cases st2) auto
  note os = validateOrRelocateRef_Ok[OF vs[unfolded st]] and oe = validateOrRelocateRef_Ok[OF vee[unfolded st]]
  have m: "m1 = []" "m2 = []" using os oe by simp_all
  from validateEdit_range_rule[OF le vs[unfolded st] vee[unfolded st], of D] ve
  have sp: "int (line e') - int (line s') = int (line e) - int (line s)"
    and p': "p' = \<lparr>spec = Range s' e', dstLines = D\<rparr>"
    by (auto split: if_splits)
  from validateOrRelocateRef_in_range[OF vs[unfolded m]] validateOrRelocateRef_in_range[OF vee[unfolded m]]
  have rg: "1 \<le> line s'" "line e' \<le> length flines" by simp_all
  from sp le have "line s' \<le> line e'" by linarith
  with p' vs vee st m sp rg show ?thesis by blast
qed

subsection \<open>The edit is applied at the relocated line\<close>

lemma set_line_applies_at:
  assumes pr: "parseLineRef a = Inr ref"
    and vr: "validateOrRelocateRef xxh (splitLF c) ref = Inr (ref', st, [])"
    and D: "D = stripNewLinePrefixes (splitDstLines t)"
    and mg: "maybeExpandSingleLineMerge (splitLF c) {line ref'} (line ref') D = None"
    and df: "joinLF (resolveReplacement (splitLF c) (line ref') (line ref') D)
               \<noteq> splitLF c ! (line ref' - 1)"
  shows "applyHashlineEdits xxh c [SetLineEdit a t]
           = Inr (singleResult (splitLF c)
                   \<lparr>fileLines = take (line ref' - 1) (splitLF c)
                                  @ resolveReplacement (splitLF c) (line ref') (line ref') D
                                  @ drop (line ref') (splitLF c),
                    firstChangedLine = Some (line ref'), noopEdits = []\<rparr>)"
proof -
  let ?p' = "\<lparr>spec = Single ref', dstLines = D\<rparr>"
  have pe: "parseHashlineEdit (SetLineEdit a t) = Inr (Single ref, t)"
    using pr by (simp add: parseHashlineEdit_def)
  have ve: "validateEdit xxh (splitLF c)
              \<lparr>spec = Single ref, dstLines = stripNewLinePrefixes (splitDstLines t)\<rparr>
            = Inr (?p', [])"
    using vr D by (simp add: validateEdit_def)
  note rg = validateOrRelocateRef_in_range[OF vr]
  have tl: "collectExplicitlyTouchedLines [?p'] = {line ref'}"
    by (simp add: collectExplicitlyTouchedLines_def)
  have ap: "applyEdit (splitLF c) (collectExplicitlyTouchedLines [?p'])
              \<lparr>fileLines = splitLF c, firstChangedLine = None, noopEdits = []\<rparr> (annotate ?p' 0)
            = \<lparr>fileLines = take (line ref' - 1) (splitLF c)
                            @ resolveReplacement (splitLF c) (line ref') (line ref') D
                            @ drop (line ref') (splitLF c),
               firstChangedLine = Some (line ref'), noopEdits = []\<rparr>"
    unfolding tl
    using applyEdit_single_plain[of ?p' ref' "splitLF c" "{line ref'}"] rg mg df by simp
  show ?thesis using applyHashlineEdits_single[OF pe ve] unfolding ap .
qed

lemma insert_after_applies_at:
  assumes pr: "parseLineRef a = Inr ref"
    and vr: "validateOrRelocateRef xxh (splitLF c) ref = Inr (ref', st, [])"
    and D: "D = stripNewLinePrefixes (splitDstLines t)"
    and ne: "D \<noteq> []"
    and ins: "stripInsertAnchorEchoAfter (splitLF c ! (line ref' - 1)) D \<noteq> []"
  shows "applyHashlineEdits xxh c [InsertAfterEdit a t]
           = Inr (singleResult (splitLF c)
                   \<lparr>fileLines = take (line ref') (splitLF c)
                                  @ stripInsertAnchorEchoAfter (splitLF c ! (line ref' - 1)) D
                                  @ drop (line ref') (splitLF c),
                    firstChangedLine = Some (line ref' + 1), noopEdits = []\<rparr>)"
proof -
  let ?p' = "\<lparr>spec = InsertAfter ref', dstLines = D\<rparr>"
  have pe: "parseHashlineEdit (InsertAfterEdit a t) = Inr (InsertAfter ref, t)"
    using pr by (simp add: parseHashlineEdit_def)
  have ve: "validateEdit xxh (splitLF c)
              \<lparr>spec = InsertAfter ref, dstLines = stripNewLinePrefixes (splitDstLines t)\<rparr>
            = Inr (?p', [])"
    using vr D ne by (simp add: validateEdit_def)
  have ap: "applyEdit (splitLF c) (collectExplicitlyTouchedLines [?p'])
              \<lparr>fileLines = splitLF c, firstChangedLine = None, noopEdits = []\<rparr> (annotate ?p' 0)
            = \<lparr>fileLines = take (line ref') (splitLF c)
                            @ stripInsertAnchorEchoAfter (splitLF c ! (line ref' - 1)) D
                            @ drop (line ref') (splitLF c),
               firstChangedLine = Some (line ref' + 1), noopEdits = []\<rparr>"
    using ins by (simp add: applyEdit_def Let_def splice_def trackFirstChanged_def)
  show ?thesis using applyHashlineEdits_single[OF pe ve] unfolding ap .
qed

lemma replace_lines_applies_at:
  assumes ps: "parseLineRef sa = Inr s" and pe: "parseLineRef ea = Inr e"
    and ea: "ea \<noteq> []" and lt: "line s < line e"
    and D: "D = stripNewLinePrefixes (splitDstLines t)"
    and ve: "validateEdit xxh (splitLF c) \<lparr>spec = Range s e, dstLines = D\<rparr>
               = Inr (\<lparr>spec = Range s' e', dstLines = D\<rparr>, [])"
    and df: "joinLF (slice (splitLF c) (line s' - 1) (line e'))
               \<noteq> joinLF (resolveReplacement (splitLF c) (line s') (line e') D)"
  shows "applyHashlineEdits xxh c [ReplaceLinesEdit sa ea t]
           = Inr (singleResult (splitLF c)
                   \<lparr>fileLines = take (line s' - 1) (splitLF c)
                                  @ resolveReplacement (splitLF c) (line s') (line e') D
                                  @ drop (line e') (splitLF c),
                    firstChangedLine = Some (line s'), noopEdits = []\<rparr>)"
proof -
  let ?p' = "\<lparr>spec = Range s' e', dstLines = D\<rparr>"
  have ph: "parseHashlineEdit (ReplaceLinesEdit sa ea t) = Inr (Range s e, t)"
    using ps pe ea lt by (simp add: parseHashlineEdit_def)
  from validateEdit_range_kept[OF _ ve] lt
  have rg: "1 \<le> line s'" "line s' \<le> line e'" by auto
  have cnt: "line s' - 1 + (line e' + 1 - line s') = line e'" using rg by simp
  have ap: "applyEdit (splitLF c) (collectExplicitlyTouchedLines [?p'])
              \<lparr>fileLines = splitLF c, firstChangedLine = None, noopEdits = []\<rparr> (annotate ?p' 0)
            = \<lparr>fileLines = take (line s' - 1) (splitLF c)
                            @ resolveReplacement (splitLF c) (line s') (line e') D
                            @ drop (line e') (splitLF c),
               firstChangedLine = Some (line s'), noopEdits = []\<rparr>"
    using df cnt by (simp add: applyEdit_def Let_def splice_def trackFirstChanged_def)
  show ?thesis using applyHashlineEdits_single[OF ph ve[unfolded D]] ap unfolding D by simp
qed

subsection \<open>A batch is applied with its relocated anchors\<close>

lemma validateAll_nth:
  "validateAll xxh flines ps = Inr (vs, ms)
     \<Longrightarrow> length vs = length ps
         \<and> (\<forall>i < length ps. \<exists>m. validateEdit xxh flines (ps ! i) = Inr (vs ! i, m)
                                    \<and> set m \<subseteq> set ms)"
proof (induction ps arbitrary: vs ms)
  case Nil then show ?case by simp
next
  case (Cons q qs)
  from Cons.prems obtain q' mq vs' ms' where
    q: "validateEdit xxh flines q = Inr (q', mq)" and r: "validateAll xxh flines qs = Inr (vs', ms')"
    and vs: "vs = q' # vs'" and ms: "ms = mq @ ms'"
    by (auto split: sum.splits)
  note ih = Cons.IH[OF r]
  show ?case
  proof (intro conjI allI impI)
    show "length vs = length (q # qs)" using ih vs by simp
    fix i assume i: "i < length (q # qs)"
    show "\<exists>m. validateEdit xxh flines ((q # qs) ! i) = Inr (vs ! i, m) \<and> set m \<subseteq> set ms"
    proof (cases i)
      case 0
      with q vs ms show ?thesis by auto
    next
      case (Suc j)
      with i have "j < length qs" by simp
      with ih obtain m where "validateEdit xxh flines (qs ! j) = Inr (vs' ! j, m)" "set m \<subseteq> set ms'"
        by blast
      with Suc vs ms show ?thesis by auto
    qed
  qed
qed

lemma applyHashlineEdits_validated:
  assumes "edits \<noteq> []" and "parseEdits edits = Inr ps"
    and "validateAll xxh (splitLF c) ps = Inr (vs, [])"
  shows "applyHashlineEdits xxh c edits
           = Inr \<lparr>content = joinLF (fileLines (applyValidated (splitLF c) vs)),
                  resultFirstChangedLine = firstChangedLine (applyValidated (splitLF c) vs),
                  warnings = (if diffLineCount (fileLines (applyValidated (splitLF c) vs)) (splitLF c)
                                   > length edits * 4
                              then [reformatWarning
                                      (diffLineCount (fileLines (applyValidated (splitLF c) vs))
                                         (splitLF c)) (length edits)]
                              else []),
                  resultNoopEdits = noopEdits (applyValidated (splitLF c) vs)\<rparr>"
  using assms by (simp add: applyHashlineEdits_def applyValidated_def Let_def)

subsection \<open>Relocation of anchors\<close>

text \<open>
  Claim C3, amended. The anchors that reach the validation loop are all anchors of an
  edit except an end anchor of \<open>replace_lines\<close> that is empty or names the same line as
  the start anchor: such an edit is parsed to a single-line edit with the start anchor
  alone. For an anchor that reaches validation and whose stated line exists:

  \<^item> if the fingerprint of the stated line is the anchor's, the anchor is accepted where
    it is;
  \<^item> if it is not, and the anchor's fingerprint is the fingerprint of exactly one line
    \<open>k\<close>, then \<open>validateOrRelocateRef\<close> relocates the anchor to line \<open>k\<close>, which is
    another line of the file, with that fingerprint; for a \<open>set_line\<close> or
    \<open>insert_after\<close> edit the relocation stands and no mismatch is recorded;
  \<^item> if the anchor's fingerprint is on no line or on two or more lines, a mismatch with
    the stated line, the expected and the actual fingerprint is recorded, also by the
    validation of a \<open>set_line\<close> or \<open>insert_after\<close> edit.

  For a range both of whose ends are accepted or relocated, the new ends are kept exactly
  if the difference of their lines is the one of the stated lines; otherwise the range
  keeps its stated lines and a mismatch is recorded for each end. If an end of a range
  fails, the mismatches of the ends are recorded.

  The edit is applied where its anchors were validated: a \<open>set_line\<close> edit (to which
  the merge expansion does not apply and whose resolved replacement differs from the
  line) replaces the line \<open>line ref'\<close> of the validated anchor, an \<open>insert_after\<close> edit
  (with a line left after the echo of the anchor line is dropped) inserts after that line,
  a \<open>replace_lines\<close> edit (whose resolved replacement differs from the old lines)
  replaces the lines from the validated start to the validated end; and the apply loop of
  any batch that passed validation runs over the edits with their validated anchors. In the file \<open>zzz, aaa, bbb, ccc\<close> the edit
  of line 1 with the fingerprint of \<open>aaa\<close> succeeds and edits line 2.
\<close>

theorem anchor_relocation:
  "(parseHashlineEdit ed = Inr (sp, ta) \<and> aa \<in> set (checkedAnchors ed) \<and> parseLineRef aa = Inr ra
    \<longrightarrow> ra \<in> set (anchorsOf sp))
   \<and> (ea \<noteq> [] \<and> parseLineRef sa = Inr rs \<and> parseLineRef ea = Inr re \<and> line rs = line re
    \<longrightarrow> parseHashlineEdit (ReplaceLinesEdit sa ea tb) = Inr (Single rs, tb)
        \<and> checkedAnchors (ReplaceLinesEdit sa ea tb) = [sa])
   \<and> (1 \<le> line refa \<and> line refa \<le> length flines
      \<and> computeLineHash xxh (flines ! (line refa - 1)) = toLowerCase (hash refa)
    \<longrightarrow> validateOrRelocateRef xxh flines refa = Inr (refa, Ok False, []))
   \<and> (1 \<le> line ref \<and> line ref \<le> length flines
      \<and> computeLineHash xxh (flines ! (line ref - 1)) \<noteq> toLowerCase (hash ref)
      \<and> linesWithHash xxh (toLowerCase (hash ref)) flines 1 = [k]
    \<longrightarrow> validateOrRelocateRef xxh flines ref = Inr (ref\<lparr>line := k\<rparr>, Ok True, [])
        \<and> 1 \<le> k \<and> k \<le> length flines \<and> k \<noteq> line ref
        \<and> computeLineHash xxh (flines ! (k - 1)) = toLowerCase (hash ref)
        \<and> validateEdit xxh flines \<lparr>spec = Single ref, dstLines = D\<rparr>
              = Inr (\<lparr>spec = Single (ref\<lparr>line := k\<rparr>), dstLines = D\<rparr>, [])
        \<and> (D \<noteq> []
             \<longrightarrow> validateEdit xxh flines \<lparr>spec = InsertAfter ref, dstLines = D\<rparr>
                   = Inr (\<lparr>spec = InsertAfter (ref\<lparr>line := k\<rparr>), dstLines = D\<rparr>, [])))
   \<and> (1 \<le> line refb \<and> line refb \<le> length flines
      \<and> computeLineHash xxh (flines ! (line refb - 1)) \<noteq> toLowerCase (hash refb)
      \<and> length (linesWithHash xxh (toLowerCase (hash refb)) flines 1) \<noteq> 1
    \<longrightarrow> validateOrRelocateRef xxh flines refb
          = Inr (refb, NotOk, [\<lparr>mismatchLine = line refb, expected = hash refb,
                                 actual = computeLineHash xxh (flines ! (line refb - 1))\<rparr>])
        \<and> validateEdit xxh flines \<lparr>spec = Single refb, dstLines = D\<rparr>
              = Inr (\<lparr>spec = Single refb, dstLines = D\<rparr>,
                     [\<lparr>mismatchLine = line refb, expected = hash refb,
                       actual = computeLineHash xxh (flines ! (line refb - 1))\<rparr>])
        \<and> (D \<noteq> []
             \<longrightarrow> validateEdit xxh flines \<lparr>spec = InsertAfter refb, dstLines = D\<rparr>
                   = Inr (\<lparr>spec = InsertAfter refb, dstLines = D\<rparr>,
                          [\<lparr>mismatchLine = line refb, expected = hash refb,
                            actual = computeLineHash xxh (flines ! (line refb - 1))\<rparr>]))
        \<and> (\<forall>p p' ms. refb \<in> set (anchorsOf (spec p)) \<and> validateEdit xxh flines p = Inr (p', ms)
               \<longrightarrow> \<lparr>mismatchLine = line refb, expected = hash refb,
                      actual = computeLineHash xxh (flines ! (line refb - 1))\<rparr> \<in> set ms))
   \<and> (line s \<le> line e
      \<and> validateOrRelocateRef xxh flines s = Inr (s', Ok ba, ma)
      \<and> validateOrRelocateRef xxh flines e = Inr (e', Ok bb, mb)
    \<longrightarrow> validateEdit xxh flines \<lparr>spec = Range s e, dstLines = D\<rparr>
          = (if int (line e') - int (line s') = int (line e) - int (line s)
             then Inr (\<lparr>spec = Range s' e', dstLines = D\<rparr>, [])
             else Inr (\<lparr>spec = Range s e, dstLines = D\<rparr>,
                       [buildMismatch xxh flines s (line s), buildMismatch xxh flines e (line e)])))
   \<and> (line u \<le> line v
      \<and> validateOrRelocateRef xxh flines u = Inr (u', sta, na)
      \<and> validateOrRelocateRef xxh flines v = Inr (v', stb, nb)
      \<and> (sta = NotOk \<or> stb = NotOk)
    \<longrightarrow> validateEdit xxh flines \<lparr>spec = Range u v, dstLines = D\<rparr>
          = Inr (\<lparr>spec = Range u' v', dstLines = D\<rparr>, na @ nb))
   \<and> (parseLineRef ab = Inr refc
      \<and> validateOrRelocateRef xxh (splitLF c) refc = Inr (refc', stc, [])
      \<and> maybeExpandSingleLineMerge (splitLF c) {line refc'} (line refc')
            (stripNewLinePrefixes (splitDstLines tc)) = None
      \<and> joinLF (resolveReplacement (splitLF c) (line refc') (line refc')
                   (stripNewLinePrefixes (splitDstLines tc)))
            \<noteq> splitLF c ! (line refc' - 1)
    \<longrightarrow> applyHashlineEdits xxh c [SetLineEdit ab tc]
          = Inr (singleResult (splitLF c)
                  \<lparr>fileLines = take (line refc' - 1) (splitLF c)
                                 @ resolveReplacement (splitLF c) (line refc') (line refc')
                                     (stripNewLinePrefixes (splitDstLines tc))
                                 @ drop (line refc') (splitLF c),
                   firstChangedLine = Some (line refc'), noopEdits = []\<rparr>))
   \<and> (parseLineRef ac = Inr refd
      \<and> validateOrRelocateRef xxh (splitLF c) refd = Inr (refd', ste, [])
      \<and> stripNewLinePrefixes (splitDstLines td) \<noteq> []
      \<and> stripInsertAnchorEchoAfter (splitLF c ! (line refd' - 1))
            (stripNewLinePrefixes (splitDstLines td)) \<noteq> []
    \<longrightarrow> applyHashlineEdits xxh c [InsertAfterEdit ac td]
          = Inr (singleResult (splitLF c)
                  \<lparr>fileLines = take (line refd') (splitLF c)
                                 @ stripInsertAnchorEchoAfter (splitLF c ! (line refd' - 1))
                                     (stripNewLinePrefixes (splitDstLines td))
                                 @ drop (line refd') (splitLF c),
                   firstChangedLine = Some (line refd' + 1), noopEdits = []\<rparr>))
   \<and> (parseLineRef saf = Inr sf \<and> parseLineRef eaf = Inr ef \<and> eaf \<noteq> [] \<and> line sf < line ef
      \<and> validateEdit xxh (splitLF c)
            \<lparr>spec = Range sf ef, dstLines = stripNewLinePrefixes (splitDstLines tf)\<rparr>
          = Inr (\<lparr>spec = Range sf' ef', dstLines = stripNewLinePrefixes (splitDstLines tf)\<rparr>, [])
      \<and> joinLF (slice (splitLF c) (line sf' - 1) (line ef'))
            \<noteq> joinLF (resolveReplacement (splitLF c) (line sf') (line ef')
                         (stripNewLinePrefixes (splitDstLines tf)))
    \<longrightarrow> applyHashlineEdits xxh c [ReplaceLinesEdit saf eaf tf]
          = Inr (singleResult (splitLF c)
                  \<lparr>fileLines = take (line sf' - 1) (splitLF c)
                                 @ resolveReplacement (splitLF c) (line sf') (line ef')
                                     (stripNewLinePrefixes (splitDstLines tf))
                                 @ drop (line ef') (splitLF c),
                   firstChangedLine = Some (line sf'), noopEdits = []\<rparr>))
   \<and> (edits \<noteq> [] \<and> parseEdits edits = Inr ps \<and> validateAll xxh (splitLF c) ps = Inr (vs, [])
    \<longrightarrow> length vs = length ps
        \<and> (\<forall>i < length ps. validateEdit xxh (splitLF c) (ps ! i) = Inr (vs ! i, []))
        \<and> (\<exists>r. applyHashlineEdits xxh c edits = Inr r
               \<and> content r = joinLF (fileLines (applyValidated (splitLF c) vs))
               \<and> resultFirstChangedLine r = firstChangedLine (applyValidated (splitLF c) vs)
               \<and> resultNoopEdits r = noopEdits (applyValidated (splitLF c) vs)))
   \<and> applyHashlineEdits xxHash32 (joinLF [js ''zzz'', js ''aaa'', js ''bbb'', js ''ccc''])
         [SetLineEdit (js ''1:5f'') (js ''AAA'')]
       = Inr \<lparr>content = joinLF [js ''zzz'', js ''AAA'', js ''bbb'', js ''ccc''],
              resultFirstChangedLine = Some 2, warnings = [], resultNoopEdits = []\<rparr>"
proof (intro conjI impI)
  assume "parseHashlineEdit ed = Inr (sp, ta) \<and> aa \<in> set (checkedAnchors ed) \<and> parseLineRef aa = Inr ra"
  then show "ra \<in> set (anchorsOf sp)" using checkedAnchors_parsed by blast
next
  assume h: "ea \<noteq> [] \<and> parseLineRef sa = Inr rs \<and> parseLineRef ea = Inr re \<and> line rs = line re"
  then show "parseHashlineEdit (ReplaceLinesEdit sa ea tb) = Inr (Single rs, tb)"
    using parseHashlineEdit_same_line by blast
  from h show "checkedAnchors (ReplaceLinesEdit sa ea tb) = [sa]"
    using parseHashlineEdit_same_line by blast
next
  assume "1 \<le> line refa \<and> line refa \<le> length flines
      \<and> computeLineHash xxh (flines ! (line refa - 1)) = toLowerCase (hash refa)"
  then show "validateOrRelocateRef xxh flines refa = Inr (refa, Ok False, [])"
    using validateOrRelocateRef_accepts by blast
next
  assume h: "1 \<le> line ref \<and> line ref \<le> length flines
      \<and> computeLineHash xxh (flines ! (line ref - 1)) \<noteq> toLowerCase (hash ref)
      \<and> linesWithHash xxh (toLowerCase (hash ref)) flines 1 = [k]"
  then show v: "validateOrRelocateRef xxh flines ref = Inr (ref\<lparr>line := k\<rparr>, Ok True, [])"
    using validateOrRelocateRef_relocates by blast
  from h validateOrRelocateRef_relocated_line[of ref flines xxh k]
  show "1 \<le> k" and "k \<le> length flines" and "k \<noteq> line ref"
    and "computeLineHash xxh (flines ! (k - 1)) = toLowerCase (hash ref)" by blast+
  from v show "validateEdit xxh flines \<lparr>spec = Single ref, dstLines = D\<rparr>
              = Inr (\<lparr>spec = Single (ref\<lparr>line := k\<rparr>), dstLines = D\<rparr>, [])"
    by (simp add: validateEdit_def)
  assume "D \<noteq> []"
  then show "validateEdit xxh flines \<lparr>spec = InsertAfter ref, dstLines = D\<rparr>
                   = Inr (\<lparr>spec = InsertAfter (ref\<lparr>line := k\<rparr>), dstLines = D\<rparr>, [])"
    using v by (simp add: validateEdit_def)
next
  assume "1 \<le> line refb \<and> line refb \<le> length flines
      \<and> computeLineHash xxh (flines ! (line refb - 1)) \<noteq> toLowerCase (hash refb)
      \<and> length (linesWithHash xxh (toLowerCase (hash refb)) flines 1) \<noteq> 1"
  then show v: "validateOrRelocateRef xxh flines refb
          = Inr (refb, NotOk, [\<lparr>mismatchLine = line refb, expected = hash refb,
                                 actual = computeLineHash xxh (flines ! (line refb - 1))\<rparr>])"
    using validateOrRelocateRef_mismatch by blast
  then show "validateEdit xxh flines \<lparr>spec = Single refb, dstLines = D\<rparr>
              = Inr (\<lparr>spec = Single refb, dstLines = D\<rparr>,
                     [\<lparr>mismatchLine = line refb, expected = hash refb,
                       actual = computeLineHash xxh (flines ! (line refb - 1))\<rparr>])"
    by (simp add: validateEdit_def)
  assume "D \<noteq> []"
  then show "validateEdit xxh flines \<lparr>spec = InsertAfter refb, dstLines = D\<rparr>
                   = Inr (\<lparr>spec = InsertAfter refb, dstLines = D\<rparr>,
                          [\<lparr>mismatchLine = line refb, expected = hash refb,
                            actual = computeLineHash xxh (flines ! (line refb - 1))\<rparr>])"
    using v by (simp add: validateEdit_def)
next
  assume h: "1 \<le> line refb \<and> line refb \<le> length flines
      \<and> computeLineHash xxh (flines ! (line refb - 1)) \<noteq> toLowerCase (hash refb)
      \<and> length (linesWithHash xxh (toLowerCase (hash refb)) flines 1) \<noteq> 1"
  show "\<forall>p p' ms. refb \<in> set (anchorsOf (spec p)) \<and> validateEdit xxh flines p = Inr (p', ms)
               \<longrightarrow> \<lparr>mismatchLine = line refb, expected = hash refb,
                      actual = computeLineHash xxh (flines ! (line refb - 1))\<rparr> \<in> set ms"
    using validateEdit_records_mismatch[of xxh flines _ _ _ refb] h by blast
next
  assume "line s \<le> line e
      \<and> validateOrRelocateRef xxh flines s = Inr (s', Ok ba, ma)
      \<and> validateOrRelocateRef xxh flines e = Inr (e', Ok bb, mb)"
  then show "validateEdit xxh flines \<lparr>spec = Range s e, dstLines = D\<rparr>
          = (if int (line e') - int (line s') = int (line e) - int (line s)
             then Inr (\<lparr>spec = Range s' e', dstLines = D\<rparr>, [])
             else Inr (\<lparr>spec = Range s e, dstLines = D\<rparr>,
                       [buildMismatch xxh flines s (line s), buildMismatch xxh flines e (line e)]))"
    using validateEdit_range_rule by blast
next
  assume "line u \<le> line v
      \<and> validateOrRelocateRef xxh flines u = Inr (u', sta, na)
      \<and> validateOrRelocateRef xxh flines v = Inr (v', stb, nb)
      \<and> (sta = NotOk \<or> stb = NotOk)"
  then show "validateEdit xxh flines \<lparr>spec = Range u v, dstLines = D\<rparr>
          = Inr (\<lparr>spec = Range u' v', dstLines = D\<rparr>, na @ nb)"
    using validateEdit_range_failed by blast
next
  assume "parseLineRef ab = Inr refc
      \<and> validateOrRelocateRef xxh (splitLF c) refc = Inr (refc', stc, [])
      \<and> maybeExpandSingleLineMerge (splitLF c) {line refc'} (line refc')
            (stripNewLinePrefixes (splitDstLines tc)) = None
      \<and> joinLF (resolveReplacement (splitLF c) (line refc') (line refc')
                   (stripNewLinePrefixes (splitDstLines tc)))
            \<noteq> splitLF c ! (line refc' - 1)"
  then show "applyHashlineEdits xxh c [SetLineEdit ab tc]
          = Inr (singleResult (splitLF c)
                  \<lparr>fileLines = take (line refc' - 1) (splitLF c)
                                 @ resolveReplacement (splitLF c) (line refc') (line refc')
                                     (stripNewLinePrefixes (splitDstLines tc))
                                 @ drop (line refc') (splitLF c),
                   firstChangedLine = Some (line refc'), noopEdits = []\<rparr>)"
    using set_line_applies_at[OF _ _ refl] by blast
next
  assume "parseLineRef ac = Inr refd
      \<and> validateOrRelocateRef xxh (splitLF c) refd = Inr (refd', ste, [])
      \<and> stripNewLinePrefixes (splitDstLines td) \<noteq> []
      \<and> stripInsertAnchorEchoAfter (splitLF c ! (line refd' - 1))
            (stripNewLinePrefixes (splitDstLines td)) \<noteq> []"
  then show "applyHashlineEdits xxh c [InsertAfterEdit ac td]
          = Inr (singleResult (splitLF c)
                  \<lparr>fileLines = take (line refd') (splitLF c)
                                 @ stripInsertAnchorEchoAfter (splitLF c ! (line refd' - 1))
                                     (stripNewLinePrefixes (splitDstLines td))
                                 @ drop (line refd') (splitLF c),
                   firstChangedLine = Some (line refd' + 1), noopEdits = []\<rparr>)"
    using insert_after_applies_at[OF _ _ refl] by blast
next
  assume "parseLineRef saf = Inr sf \<and> parseLineRef eaf = Inr ef \<and> eaf \<noteq> [] \<and> line sf < line ef
      \<and> validateEdit xxh (splitLF c)
            \<lparr>spec = Range sf ef, dstLines = stripNewLinePrefixes (splitDstLines tf)\<rparr>
          = Inr (\<lparr>spec = Range sf' ef', dstLines = stripNewLinePrefixes (splitDstLines tf)\<rparr>, [])
      \<and> joinLF (slice (splitLF c) (line sf' - 1) (line ef'))
            \<noteq> joinLF (resolveReplacement (splitLF c) (line sf') (line ef')
                         (stripNewLinePrefixes (splitDstLines tf)))"
  then show "applyHashlineEdits xxh c [ReplaceLinesEdit saf eaf tf]
          = Inr (singleResult (splitLF c)
                  \<lparr>fileLines = take (line sf' - 1) (splitLF c)
                                 @ resolveReplacement (splitLF c) (line sf') (line ef')
                                     (stripNewLinePrefixes (splitDstLines tf))
                                 @ drop (line ef') (splitLF c),
                   firstChangedLine = Some (line sf'), noopEdits = []\<rparr>)"
    using replace_lines_applies_at[OF _ _ _ _ refl] by blast
next
  assume h: "edits \<noteq> [] \<and> parseEdits edits = Inr ps \<and> validateAll xxh (splitLF c) ps = Inr (vs, [])"
  from validateAll_nth[of xxh "splitLF c" ps vs "[]"] h
  show "length vs = length ps"
    and "\<forall>i < length ps. validateEdit xxh (splitLF c) (ps ! i) = Inr (vs ! i, [])" by auto
  from h applyHashlineEdits_validated[of edits ps xxh c vs]
  show "\<exists>r. applyHashlineEdits xxh c edits = Inr r
               \<and> content r = joinLF (fileLines (applyValidated (splitLF c) vs))
               \<and> resultFirstChangedLine r = firstChangedLine (applyValidated (splitLF c) vs)
               \<and> resultNoopEdits r = noopEdits (applyValidated (splitLF c) vs)" by simp
next
  show "applyHashlineEdits xxHash32 (joinLF [js ''zzz'', js ''aaa'', js ''bbb'', js ''ccc''])
         [SetLineEdit (js ''1:5f'') (js ''AAA'')]
       = Inr \<lparr>content = joinLF [js ''zzz'', js ''AAA'', js ''bbb'', js ''ccc''],
              resultFirstChangedLine = Some 2, warnings = [], resultNoopEdits = []\<rparr>"
    by (rule relocation_example)
qed

lemma linesWithHash_ff_zabc:
  "linesWithHash xxHash32 (js ''ff'') [js ''zzz'', js ''aaa'', js ''bbb'', js ''ccc''] 1 = []"
  by (simp add: hashes_zabc) (simp add: js_def)

lemma linesWithHash_more_zabc:
  "linesWithHash xxHash32 (js ''67'') [js ''zzz'', js ''aaa'', js ''bbb'', js ''ccc''] 1 = [3]"
  "linesWithHash xxHash32 (js ''00'') [js ''zzz'', js ''aaa'', js ''bbb'', js ''ccc''] 1 = [4]"
  by (simp_all add: hashes_zabc) (simp_all add: js_def)

theorem anchor_relocation_witness:
  "checkedAnchors (ReplaceLinesEdit (js ''1:5f'') (js ''3:67'') (js ''X'')) = [js ''1:5f'', js ''3:67'']
   \<and> parseHashlineEdit (ReplaceLinesEdit (js ''1:10'') (js ''1:5f'') (js ''X''))
       = Inr (Single \<lparr>line = 1, hash = js ''10''\<rparr>, js ''X'')
   \<and> linesWithHash xxHash32 (js ''5f'') [js ''zzz'', js ''aaa'', js ''bbb'', js ''ccc''] 1 = [2]
   \<and> linesWithHash xxHash32 (js ''ff'') [js ''zzz'', js ''aaa'', js ''bbb'', js ''ccc''] 1 = []
   \<and> validateOrRelocateRef xxHash32 [js ''zzz'', js ''aaa'', js ''bbb'', js ''ccc''] \<lparr>line = 3, hash = js ''67''\<rparr> = Inr (\<lparr>line = 3, hash = js ''67''\<rparr>, Ok False, [])
   \<and> validateOrRelocateRef xxHash32 [js ''zzz'', js ''aaa'', js ''bbb'', js ''ccc''] \<lparr>line = 1, hash = js ''5f''\<rparr> = Inr (\<lparr>line = 2, hash = js ''5f''\<rparr>, Ok True, [])
   \<and> validateEdit xxHash32 [js ''zzz'', js ''aaa'', js ''bbb'', js ''ccc''] \<lparr>spec = InsertAfter \<lparr>line = 1, hash = js ''5f''\<rparr>, dstLines = [js ''X'']\<rparr>
       = Inr (\<lparr>spec = InsertAfter \<lparr>line = 2, hash = js ''5f''\<rparr>, dstLines = [js ''X'']\<rparr>, [])
   \<and> validateOrRelocateRef xxHash32 [js ''zzz'', js ''aaa'', js ''bbb'', js ''ccc''] \<lparr>line = 1, hash = js ''ff''\<rparr> = Inr (\<lparr>line = 1, hash = js ''ff''\<rparr>, NotOk, [\<lparr>mismatchLine = 1, expected = js ''ff'', actual = js ''10''\<rparr>])
   \<and> validateEdit xxHash32 [js ''zzz'', js ''aaa'', js ''bbb'', js ''ccc''] \<lparr>spec = ParsedRefs.Range \<lparr>line = 1, hash = js ''5f''\<rparr> \<lparr>line = 3, hash = js ''67''\<rparr>, dstLines = [js ''X'']\<rparr>
       = Inr (\<lparr>spec = ParsedRefs.Range \<lparr>line = 1, hash = js ''5f''\<rparr> \<lparr>line = 3, hash = js ''67''\<rparr>, dstLines = [js ''X'']\<rparr>,
              [\<lparr>mismatchLine = 1, expected = js ''5f'', actual = js ''10''\<rparr>,
               \<lparr>mismatchLine = 3, expected = js ''67'', actual = js ''67''\<rparr>])
   \<and> validateEdit xxHash32 [js ''zzz'', js ''aaa'', js ''bbb'', js ''ccc''] \<lparr>spec = ParsedRefs.Range \<lparr>line = 1, hash = js ''5f''\<rparr> \<lparr>line = 2, hash = js ''67''\<rparr>, dstLines = [js ''X'']\<rparr>
       = Inr (\<lparr>spec = ParsedRefs.Range \<lparr>line = 2, hash = js ''5f''\<rparr> \<lparr>line = 3, hash = js ''67''\<rparr>, dstLines = [js ''X'']\<rparr>, [])
   \<and> validateEdit xxHash32 [js ''zzz'', js ''aaa'', js ''bbb'', js ''ccc''] \<lparr>spec = ParsedRefs.Range \<lparr>line = 1, hash = js ''ff''\<rparr> \<lparr>line = 3, hash = js ''67''\<rparr>, dstLines = [js ''X'']\<rparr>
       = Inr (\<lparr>spec = ParsedRefs.Range \<lparr>line = 1, hash = js ''ff''\<rparr> \<lparr>line = 3, hash = js ''67''\<rparr>, dstLines = [js ''X'']\<rparr>, [\<lparr>mismatchLine = 1, expected = js ''ff'', actual = js ''10''\<rparr>])
   \<and> applyHashlineEdits xxHash32 (joinLF [js ''zzz'', js ''aaa'', js ''bbb'', js ''ccc'']) [SetLineEdit (js ''1:5f'') (js ''AAA'')]
       = Inr \<lparr>content = joinLF [js ''zzz'', js ''AAA'', js ''bbb'', js ''ccc''],
              resultFirstChangedLine = Some 2, warnings = [], resultNoopEdits = []\<rparr>
   \<and> applyHashlineEdits xxHash32 (joinLF [js ''zzz'', js ''aaa'', js ''bbb'', js ''ccc'']) [InsertAfterEdit (js ''1:5f'') (js ''X'')]
       = Inr \<lparr>content = joinLF [js ''zzz'', js ''aaa'', js ''X'', js ''bbb'', js ''ccc''],
              resultFirstChangedLine = Some 3, warnings = [], resultNoopEdits = []\<rparr>
   \<and> applyHashlineEdits xxHash32 (joinLF [js ''zzz'', js ''aaa'', js ''bbb'', js ''ccc'']) [ReplaceLinesEdit (js ''1:5f'') (js ''2:67'') (js ''X'')]
       = Inr \<lparr>content = joinLF [js ''zzz'', js ''X'', js ''ccc''],
              resultFirstChangedLine = Some 2, warnings = [], resultNoopEdits = []\<rparr>
   \<and> (\<exists>r. applyHashlineEdits xxHash32 (joinLF [js ''zzz'', js ''aaa'', js ''bbb'', js ''ccc''])
               [SetLineEdit (js ''1:5f'') (js ''AAA''), InsertAfterEdit (js ''3:00'') (js ''X'')] = Inr r
          \<and> content r = joinLF [js ''zzz'', js ''AAA'', js ''bbb'', js ''ccc'', js ''X'']
          \<and> resultFirstChangedLine r = Some 2 \<and> resultNoopEdits r = [])"
proof -
  note T = anchor_relocation
    [where ed = "ReplaceLinesEdit (js ''1:5f'') (js ''3:67'') (js ''X'')" and
      sp = "ParsedRefs.Range \<lparr>line = 1, hash = js ''5f''\<rparr> \<lparr>line = 3, hash = js ''67''\<rparr>" and
      ta = "js ''X''" and
      aa = "js ''3:67''" and
      ra = "\<lparr>line = 3, hash = js ''67''\<rparr>" and
      sa = "js ''1:10''" and
      ea = "js ''1:5f''" and
      rs = "\<lparr>line = 1, hash = js ''10''\<rparr>" and
      re = "\<lparr>line = 1, hash = js ''5f''\<rparr>" and
      tb = "js ''X''" and
      refa = "\<lparr>line = 3, hash = js ''67''\<rparr>" and
      flines = "[js ''zzz'', js ''aaa'', js ''bbb'', js ''ccc'']" and
      xxh = "xxHash32" and
      ref = "\<lparr>line = 1, hash = js ''5f''\<rparr>" and
      k = "2" and
      D = "[js ''X'']" and
      refb = "\<lparr>line = 1, hash = js ''ff''\<rparr>" and
      s = "\<lparr>line = 1, hash = js ''5f''\<rparr>" and
      e = "\<lparr>line = 3, hash = js ''67''\<rparr>" and
      s' = "\<lparr>line = 2, hash = js ''5f''\<rparr>" and
      ba = "True" and
      ma = "[]" and
      e' = "\<lparr>line = 3, hash = js ''67''\<rparr>" and
      bb = "False" and
      mb = "[]" and
      u = "\<lparr>line = 1, hash = js ''ff''\<rparr>" and
      v = "\<lparr>line = 3, hash = js ''67''\<rparr>" and
      u' = "\<lparr>line = 1, hash = js ''ff''\<rparr>" and
      sta = "NotOk" and
      na = "[\<lparr>mismatchLine = 1, expected = js ''ff'', actual = js ''10''\<rparr>]" and
      v' = "\<lparr>line = 3, hash = js ''67''\<rparr>" and
      stb = "Ok False" and
      nb = "[]" and
      ab = "js ''1:5f''" and
      refc = "\<lparr>line = 1, hash = js ''5f''\<rparr>" and
      c = "joinLF [js ''zzz'', js ''aaa'', js ''bbb'', js ''ccc'']" and
      refc' = "\<lparr>line = 2, hash = js ''5f''\<rparr>" and
      stc = "Ok True" and
      tc = "js ''AAA''" and
      ac = "js ''1:5f''" and
      refd = "\<lparr>line = 1, hash = js ''5f''\<rparr>" and
      refd' = "\<lparr>line = 2, hash = js ''5f''\<rparr>" and
      ste = "Ok True" and
      td = "js ''X''" and
      saf = "js ''1:5f''" and
      sf = "\<lparr>line = 1, hash = js ''5f''\<rparr>" and
      eaf = "js ''2:67''" and
      ef = "\<lparr>line = 2, hash = js ''67''\<rparr>" and
      tf = "js ''X''" and
      sf' = "\<lparr>line = 2, hash = js ''5f''\<rparr>" and
      ef' = "\<lparr>line = 3, hash = js ''67''\<rparr>" and
      edits = "[SetLineEdit (js ''1:5f'') (js ''AAA''), InsertAfterEdit (js ''3:00'') (js ''X'')]" and
      ps = "[\<lparr>spec = Single \<lparr>line = 1, hash = js ''5f''\<rparr>, dstLines = [js ''AAA'']\<rparr>, \<lparr>spec = InsertAfter \<lparr>line = 3, hash = js ''00''\<rparr>, dstLines = [js ''X'']\<rparr>]" and
      vs = "[\<lparr>spec = Single \<lparr>line = 2, hash = js ''5f''\<rparr>, dstLines = [js ''AAA'']\<rparr>, \<lparr>spec = InsertAfter \<lparr>line = 4, hash = js ''00''\<rparr>, dstLines = [js ''X'']\<rparr>]"]
  note T2 = anchor_relocation
    [where s = "\<lparr>line = 1, hash = js ''5f''\<rparr>" and e = "\<lparr>line = 2, hash = js ''67''\<rparr>" and s' = "\<lparr>line = 2, hash = js ''5f''\<rparr>" and ba = True and ma = "[]" and e' = "\<lparr>line = 3, hash = js ''67''\<rparr>" and bb = True and mb = "[]" and flines = "[js ''zzz'', js ''aaa'', js ''bbb'', js ''ccc'']" and xxh = xxHash32 and D = "[js ''X'']"]
  have lw: "toLowerCase (js ''5f'') = js ''5f''" "toLowerCase (js ''ff'') = js ''ff''"
    "toLowerCase (js ''67'') = js ''67''" "toLowerCase (js ''00'') = js ''00''"
    "toLowerCase (js ''10'') = js ''10''"
    by (simp_all add: toLowerCase_def js_def)
  have ne: "js ''10'' \<noteq> js ''5f''" "js ''10'' \<noteq> js ''ff''" "js ''5f'' \<noteq> js ''67''"
    "js ''67'' \<noteq> js ''00''"
    by (simp_all add: js_def)
  have sl: "splitLF (joinLF [js ''zzz'', js ''aaa'', js ''bbb'', js ''ccc'']) = [js ''zzz'', js ''aaa'', js ''bbb'', js ''ccc'']" by (rule split_zabc)
  have pl: "parseLineRef (js ''1:5f'') = Inr \<lparr>line = 1, hash = js ''5f''\<rparr>" "parseLineRef (js ''3:67'') = Inr \<lparr>line = 3, hash = js ''67''\<rparr>"
    "parseLineRef (js ''1:10'') = Inr \<lparr>line = 1, hash = js ''10''\<rparr>" "parseLineRef (js ''2:67'') = Inr \<lparr>line = 2, hash = js ''67''\<rparr>"
    by (simp_all add: parse_defs str_defs)
  have dX: "stripNewLinePrefixes (splitDstLines (js ''X'')) = [js ''X'']"
    and dA: "stripNewLinePrefixes (splitDstLines (js ''AAA'')) = [js ''AAA'']"
    by (simp_all add: parse_defs str_defs)
  have ph: "parseHashlineEdit (ReplaceLinesEdit (js ''1:5f'') (js ''3:67'') (js ''X''))
              = Inr (ParsedRefs.Range \<lparr>line = 1, hash = js ''5f''\<rparr> \<lparr>line = 3, hash = js ''67''\<rparr>, js ''X'')"
    using pl by (simp add: parseHashlineEdit_def) (simp add: js_def)
  have ca: "checkedAnchors (ReplaceLinesEdit (js ''1:5f'') (js ''3:67'') (js ''X'')) = [js ''1:5f'', js ''3:67'']"
    using pl by (simp add: checkedAnchors_def) (simp add: js_def)
  have w1: "\<lparr>line = 3, hash = js ''67''\<rparr> \<in> set (anchorsOf (ParsedRefs.Range \<lparr>line = 1, hash = js ''5f''\<rparr> \<lparr>line = 3, hash = js ''67''\<rparr>))"
    by (rule T[THEN conjunct1, THEN mp]) (simp add: ph ca pl)
  have w2: "parseHashlineEdit (ReplaceLinesEdit (js ''1:10'') (js ''1:5f'') (js ''X''))
       = Inr (Single \<lparr>line = 1, hash = js ''10''\<rparr>, js ''X'')"
    by (rule T[THEN conjunct2, THEN conjunct1, THEN mp, THEN conjunct1]) (simp add: pl, simp add: js_def)
  have w3: "validateOrRelocateRef xxHash32 [js ''zzz'', js ''aaa'', js ''bbb'', js ''ccc''] \<lparr>line = 3, hash = js ''67''\<rparr> = Inr (\<lparr>line = 3, hash = js ''67''\<rparr>, Ok False, [])"
    by (rule T[THEN conjunct2, THEN conjunct2, THEN conjunct1, THEN mp]) (simp add: hashes_zabc lw)
  have h4: "1 \<le> line \<lparr>line = 1, hash = js ''5f''\<rparr> \<and> line \<lparr>line = 1, hash = js ''5f''\<rparr> \<le> length [js ''zzz'', js ''aaa'', js ''bbb'', js ''ccc'']
      \<and> computeLineHash xxHash32 ([js ''zzz'', js ''aaa'', js ''bbb'', js ''ccc''] ! (line \<lparr>line = 1, hash = js ''5f''\<rparr> - 1)) \<noteq> toLowerCase (hash \<lparr>line = 1, hash = js ''5f''\<rparr>)
      \<and> linesWithHash xxHash32 (toLowerCase (hash \<lparr>line = 1, hash = js ''5f''\<rparr>)) [js ''zzz'', js ''aaa'', js ''bbb'', js ''ccc''] 1 = [2]"
    using ne linesWithHash_zabc by (simp add: hashes_zabc lw)
  note c4 = T[THEN conjunct2, THEN conjunct2, THEN conjunct2, THEN conjunct1, THEN mp, OF h4]
  have w4: "validateOrRelocateRef xxHash32 [js ''zzz'', js ''aaa'', js ''bbb'', js ''ccc''] \<lparr>line = 1, hash = js ''5f''\<rparr> = Inr (\<lparr>line = 2, hash = js ''5f''\<rparr>, Ok True, [])"
    using c4[THEN conjunct1] by simp
  have w4b: "validateEdit xxHash32 [js ''zzz'', js ''aaa'', js ''bbb'', js ''ccc''] \<lparr>spec = InsertAfter \<lparr>line = 1, hash = js ''5f''\<rparr>, dstLines = [js ''X'']\<rparr>
       = Inr (\<lparr>spec = InsertAfter \<lparr>line = 2, hash = js ''5f''\<rparr>, dstLines = [js ''X'']\<rparr>, [])"
    using c4[THEN conjunct2, THEN conjunct2, THEN conjunct2, THEN conjunct2, THEN conjunct2,
             THEN conjunct2] by simp
  have h5: "1 \<le> line \<lparr>line = 1, hash = js ''ff''\<rparr> \<and> line \<lparr>line = 1, hash = js ''ff''\<rparr> \<le> length [js ''zzz'', js ''aaa'', js ''bbb'', js ''ccc'']
      \<and> computeLineHash xxHash32 ([js ''zzz'', js ''aaa'', js ''bbb'', js ''ccc''] ! (line \<lparr>line = 1, hash = js ''ff''\<rparr> - 1)) \<noteq> toLowerCase (hash \<lparr>line = 1, hash = js ''ff''\<rparr>)
      \<and> length (linesWithHash xxHash32 (toLowerCase (hash \<lparr>line = 1, hash = js ''ff''\<rparr>)) [js ''zzz'', js ''aaa'', js ''bbb'', js ''ccc''] 1) \<noteq> 1"
    using ne linesWithHash_ff_zabc by (simp add: hashes_zabc lw)
  have w5: "validateOrRelocateRef xxHash32 [js ''zzz'', js ''aaa'', js ''bbb'', js ''ccc''] \<lparr>line = 1, hash = js ''ff''\<rparr> = Inr (\<lparr>line = 1, hash = js ''ff''\<rparr>, NotOk, [\<lparr>mismatchLine = 1, expected = js ''ff'', actual = js ''10''\<rparr>])"
    using T[THEN conjunct2, THEN conjunct2, THEN conjunct2, THEN conjunct2, THEN conjunct1, THEN mp, OF h5, THEN conjunct1] by (simp add: hashes_zabc)
  have w6: "validateEdit xxHash32 [js ''zzz'', js ''aaa'', js ''bbb'', js ''ccc''] \<lparr>spec = ParsedRefs.Range \<lparr>line = 1, hash = js ''5f''\<rparr> \<lparr>line = 3, hash = js ''67''\<rparr>, dstLines = [js ''X'']\<rparr>
       = Inr (\<lparr>spec = ParsedRefs.Range \<lparr>line = 1, hash = js ''5f''\<rparr> \<lparr>line = 3, hash = js ''67''\<rparr>, dstLines = [js ''X'']\<rparr>,
              [\<lparr>mismatchLine = 1, expected = js ''5f'', actual = js ''10''\<rparr>,
               \<lparr>mismatchLine = 3, expected = js ''67'', actual = js ''67''\<rparr>])"
    using T[THEN conjunct2, THEN conjunct2, THEN conjunct2, THEN conjunct2, THEN conjunct2, THEN conjunct1, THEN mp, OF conjI[OF _ conjI[OF w4 w3]]]
    by (simp add: buildMismatch_def hashes_zabc)
  have v267: "validateOrRelocateRef xxHash32 [js ''zzz'', js ''aaa'', js ''bbb'', js ''ccc''] \<lparr>line = 2, hash = js ''67''\<rparr> = Inr (\<lparr>line = 3, hash = js ''67''\<rparr>, Ok True, [])"
    using validateOrRelocateRef_relocates[of "\<lparr>line = 2, hash = js ''67''\<rparr>" "[js ''zzz'', js ''aaa'', js ''bbb'', js ''ccc'']" xxHash32 3] ne linesWithHash_more_zabc
    by (simp add: hashes_zabc lw)
  have w6b: "validateEdit xxHash32 [js ''zzz'', js ''aaa'', js ''bbb'', js ''ccc''] \<lparr>spec = ParsedRefs.Range \<lparr>line = 1, hash = js ''5f''\<rparr> \<lparr>line = 2, hash = js ''67''\<rparr>, dstLines = [js ''X'']\<rparr>
       = Inr (\<lparr>spec = ParsedRefs.Range \<lparr>line = 2, hash = js ''5f''\<rparr> \<lparr>line = 3, hash = js ''67''\<rparr>, dstLines = [js ''X'']\<rparr>, [])"
    using T2[THEN conjunct2, THEN conjunct2, THEN conjunct2, THEN conjunct2, THEN conjunct2, THEN conjunct1, THEN mp, OF conjI[OF _ conjI[OF w4 v267]]] by simp
  have w7: "validateEdit xxHash32 [js ''zzz'', js ''aaa'', js ''bbb'', js ''ccc''] \<lparr>spec = ParsedRefs.Range \<lparr>line = 1, hash = js ''ff''\<rparr> \<lparr>line = 3, hash = js ''67''\<rparr>, dstLines = [js ''X'']\<rparr>
       = Inr (\<lparr>spec = ParsedRefs.Range \<lparr>line = 1, hash = js ''ff''\<rparr> \<lparr>line = 3, hash = js ''67''\<rparr>, dstLines = [js ''X'']\<rparr>, [\<lparr>mismatchLine = 1, expected = js ''ff'', actual = js ''10''\<rparr>])"
    using T[THEN conjunct2, THEN conjunct2, THEN conjunct2, THEN conjunct2, THEN conjunct2, THEN conjunct2, THEN conjunct1, THEN mp, OF conjI[OF _ conjI[OF w5 conjI[OF w3]]]] by simp
  have mg: "maybeExpandSingleLineMerge [js ''zzz'', js ''aaa'', js ''bbb'', js ''ccc''] {2} 2 [js ''AAA''] = None"
    by (simp add: maybeExpandSingleLineMerge_def stripAllWhitespace_def
          stripTrailingContinuationTokens_def stripMergeOperatorChars_def continuationChars_def
          indexOf_def str_defs Let_def)
  have rr: "resolveReplacement [js ''zzz'', js ''aaa'', js ''bbb'', js ''ccc''] 2 2 [js ''AAA''] = [js ''AAA'']"
    by (simp add: resolveReplacement_def slice_def stripRangeBoundaryEcho_def
          restoreOldWrappedLines_def restoreIndentForPairedReplacement_def restoreLeadingIndent_def
          leadingWhitespace_def hyphenFallback_def str_defs Let_def)
  have h8: "parseLineRef (js ''1:5f'') = Inr \<lparr>line = 1, hash = js ''5f''\<rparr>
      \<and> validateOrRelocateRef xxHash32 (splitLF (joinLF [js ''zzz'', js ''aaa'', js ''bbb'', js ''ccc''])) \<lparr>line = 1, hash = js ''5f''\<rparr> = Inr (\<lparr>line = 2, hash = js ''5f''\<rparr>, Ok True, [])
      \<and> maybeExpandSingleLineMerge (splitLF (joinLF [js ''zzz'', js ''aaa'', js ''bbb'', js ''ccc''])) {line \<lparr>line = 2, hash = js ''5f''\<rparr>} (line \<lparr>line = 2, hash = js ''5f''\<rparr>)
            (stripNewLinePrefixes (splitDstLines (js ''AAA''))) = None
      \<and> joinLF (resolveReplacement (splitLF (joinLF [js ''zzz'', js ''aaa'', js ''bbb'', js ''ccc''])) (line \<lparr>line = 2, hash = js ''5f''\<rparr>) (line \<lparr>line = 2, hash = js ''5f''\<rparr>)
                   (stripNewLinePrefixes (splitDstLines (js ''AAA''))))
            \<noteq> splitLF (joinLF [js ''zzz'', js ''aaa'', js ''bbb'', js ''ccc'']) ! (line \<lparr>line = 2, hash = js ''5f''\<rparr> - 1)"
    unfolding sl dA using pl(1) w4 mg rr by (simp add: joinLF_def) (simp add: js_def)
  have w8: "applyHashlineEdits xxHash32 (joinLF [js ''zzz'', js ''aaa'', js ''bbb'', js ''ccc'']) [SetLineEdit (js ''1:5f'') (js ''AAA'')]
       = Inr \<lparr>content = joinLF [js ''zzz'', js ''AAA'', js ''bbb'', js ''ccc''],
              resultFirstChangedLine = Some 2, warnings = [], resultNoopEdits = []\<rparr>"
    using T[THEN conjunct2, THEN conjunct2, THEN conjunct2, THEN conjunct2, THEN conjunct2, THEN conjunct2, THEN conjunct2, THEN conjunct1, THEN mp, OF h8] unfolding sl dA
    using rr by (simp add: singleResult_def diffLineCount_def)
  have si: "stripInsertAnchorEchoAfter (js ''aaa'') [js ''X''] = [js ''X'']"
    by (simp add: stripInsertAnchorEchoAfter_def)
  have h9: "parseLineRef (js ''1:5f'') = Inr \<lparr>line = 1, hash = js ''5f''\<rparr>
      \<and> validateOrRelocateRef xxHash32 (splitLF (joinLF [js ''zzz'', js ''aaa'', js ''bbb'', js ''ccc''])) \<lparr>line = 1, hash = js ''5f''\<rparr> = Inr (\<lparr>line = 2, hash = js ''5f''\<rparr>, Ok True, [])
      \<and> stripNewLinePrefixes (splitDstLines (js ''X'')) \<noteq> []
      \<and> stripInsertAnchorEchoAfter (splitLF (joinLF [js ''zzz'', js ''aaa'', js ''bbb'', js ''ccc'']) ! (line \<lparr>line = 2, hash = js ''5f''\<rparr> - 1))
            (stripNewLinePrefixes (splitDstLines (js ''X''))) \<noteq> []"
    unfolding sl dX using pl(1) w4 si by simp
  have w9: "applyHashlineEdits xxHash32 (joinLF [js ''zzz'', js ''aaa'', js ''bbb'', js ''ccc'']) [InsertAfterEdit (js ''1:5f'') (js ''X'')]
       = Inr \<lparr>content = joinLF [js ''zzz'', js ''aaa'', js ''X'', js ''bbb'', js ''ccc''],
              resultFirstChangedLine = Some 3, warnings = [], resultNoopEdits = []\<rparr>"
    using T[THEN conjunct2, THEN conjunct2, THEN conjunct2, THEN conjunct2, THEN conjunct2, THEN conjunct2, THEN conjunct2, THEN conjunct2, THEN conjunct1, THEN mp, OF h9] unfolding sl dX
    using si by (simp add: singleResult_def diffLineCount_def)
  have rx: "resolveReplacement [js ''zzz'', js ''aaa'', js ''bbb'', js ''ccc''] 2 3 [js ''X''] = [js ''X'']"
    by (simp add: resolveReplacement_def slice_def stripRangeBoundaryEcho_def
          restoreOldWrappedLines_def restoreIndentForPairedReplacement_def
          hyphenFallback_def str_defs Let_def)
  have h10: "parseLineRef (js ''1:5f'') = Inr \<lparr>line = 1, hash = js ''5f''\<rparr> \<and> parseLineRef (js ''2:67'') = Inr \<lparr>line = 2, hash = js ''67''\<rparr>
      \<and> js ''2:67'' \<noteq> [] \<and> line \<lparr>line = 1, hash = js ''5f''\<rparr> < line \<lparr>line = 2, hash = js ''67''\<rparr>
      \<and> validateEdit xxHash32 (splitLF (joinLF [js ''zzz'', js ''aaa'', js ''bbb'', js ''ccc'']))
            \<lparr>spec = ParsedRefs.Range \<lparr>line = 1, hash = js ''5f''\<rparr> \<lparr>line = 2, hash = js ''67''\<rparr>, dstLines = stripNewLinePrefixes (splitDstLines (js ''X''))\<rparr>
          = Inr (\<lparr>spec = ParsedRefs.Range \<lparr>line = 2, hash = js ''5f''\<rparr> \<lparr>line = 3, hash = js ''67''\<rparr>, dstLines = stripNewLinePrefixes (splitDstLines (js ''X''))\<rparr>, [])
      \<and> joinLF (slice (splitLF (joinLF [js ''zzz'', js ''aaa'', js ''bbb'', js ''ccc''])) (line \<lparr>line = 2, hash = js ''5f''\<rparr> - 1) (line \<lparr>line = 3, hash = js ''67''\<rparr>))
            \<noteq> joinLF (resolveReplacement (splitLF (joinLF [js ''zzz'', js ''aaa'', js ''bbb'', js ''ccc''])) (line \<lparr>line = 2, hash = js ''5f''\<rparr>) (line \<lparr>line = 3, hash = js ''67''\<rparr>)
                         (stripNewLinePrefixes (splitDstLines (js ''X''))))"
    unfolding sl dX using pl w6b rx by (simp add: slice_def joinLF_def) (simp add: js_def LF_def)
  have w10: "applyHashlineEdits xxHash32 (joinLF [js ''zzz'', js ''aaa'', js ''bbb'', js ''ccc'']) [ReplaceLinesEdit (js ''1:5f'') (js ''2:67'') (js ''X'')]
       = Inr \<lparr>content = joinLF [js ''zzz'', js ''X'', js ''ccc''],
              resultFirstChangedLine = Some 2, warnings = [], resultNoopEdits = []\<rparr>"
    using T[THEN conjunct2, THEN conjunct2, THEN conjunct2, THEN conjunct2, THEN conjunct2, THEN conjunct2, THEN conjunct2, THEN conjunct2, THEN conjunct2, THEN conjunct1, THEN mp, OF h10] unfolding sl dX
    using rx by (simp add: singleResult_def diffLineCount_def)
  have pe: "parseEdits [SetLineEdit (js ''1:5f'') (js ''AAA''), InsertAfterEdit (js ''3:00'') (js ''X'')]
              = Inr [\<lparr>spec = Single \<lparr>line = 1, hash = js ''5f''\<rparr>, dstLines = [js ''AAA'']\<rparr>, \<lparr>spec = InsertAfter \<lparr>line = 3, hash = js ''00''\<rparr>, dstLines = [js ''X'']\<rparr>]"
    by (simp add: parse_defs str_defs)
  have v300: "validateOrRelocateRef xxHash32 [js ''zzz'', js ''aaa'', js ''bbb'', js ''ccc''] \<lparr>line = 3, hash = js ''00''\<rparr> = Inr (\<lparr>line = 4, hash = js ''00''\<rparr>, Ok True, [])"
    using validateOrRelocateRef_relocates[of "\<lparr>line = 3, hash = js ''00''\<rparr>" "[js ''zzz'', js ''aaa'', js ''bbb'', js ''ccc'']" xxHash32 4] ne linesWithHash_more_zabc
    by (simp add: hashes_zabc lw)
  have va: "validateAll xxHash32 (splitLF (joinLF [js ''zzz'', js ''aaa'', js ''bbb'', js ''ccc''])) [\<lparr>spec = Single \<lparr>line = 1, hash = js ''5f''\<rparr>, dstLines = [js ''AAA'']\<rparr>, \<lparr>spec = InsertAfter \<lparr>line = 3, hash = js ''00''\<rparr>, dstLines = [js ''X'']\<rparr>] = Inr ([\<lparr>spec = Single \<lparr>line = 2, hash = js ''5f''\<rparr>, dstLines = [js ''AAA'']\<rparr>, \<lparr>spec = InsertAfter \<lparr>line = 4, hash = js ''00''\<rparr>, dstLines = [js ''X'']\<rparr>], [])"
    unfolding sl using w4 v300 by (simp add: validateEdit_def)
  have av: "applyValidated [js ''zzz'', js ''aaa'', js ''bbb'', js ''ccc''] [\<lparr>spec = Single \<lparr>line = 2, hash = js ''5f''\<rparr>, dstLines = [js ''AAA'']\<rparr>, \<lparr>spec = InsertAfter \<lparr>line = 4, hash = js ''00''\<rparr>, dstLines = [js ''X'']\<rparr>]
              = \<lparr>fileLines = [js ''zzz'', js ''AAA'', js ''bbb'', js ''ccc'', js ''X''],
                 firstChangedLine = Some 2, noopEdits = []\<rparr>"
  proof -
    have dd: "dedupe {} [\<lparr>spec = Single \<lparr>line = 2, hash = js ''5f''\<rparr>, dstLines = [js ''AAA'']\<rparr>, \<lparr>spec = InsertAfter \<lparr>line = 4, hash = js ''00''\<rparr>, dstLines = [js ''X'']\<rparr>] = [\<lparr>spec = Single \<lparr>line = 2, hash = js ''5f''\<rparr>, dstLines = [js ''AAA'']\<rparr>, \<lparr>spec = InsertAfter \<lparr>line = 4, hash = js ''00''\<rparr>, dstLines = [js ''X'']\<rparr>]"
      by (simp add: dstKey_def lineKey_def js_def)
    have so: "sortEdits (map (\<lambda>(p, i). annotate p i) (zip [\<lparr>spec = Single \<lparr>line = 2, hash = js ''5f''\<rparr>, dstLines = [js ''AAA'']\<rparr>, \<lparr>spec = InsertAfter \<lparr>line = 4, hash = js ''00''\<rparr>, dstLines = [js ''X'']\<rparr>] [0..<length [\<lparr>spec = Single \<lparr>line = 2, hash = js ''5f''\<rparr>, dstLines = [js ''AAA'']\<rparr>, \<lparr>spec = InsertAfter \<lparr>line = 4, hash = js ''00''\<rparr>, dstLines = [js ''X'']\<rparr>]]))
                = [annotate (\<lparr>spec = InsertAfter \<lparr>line = 4, hash = js ''00''\<rparr>, dstLines = [js ''X'']\<rparr>) 1,
                   annotate (\<lparr>spec = Single \<lparr>line = 2, hash = js ''5f''\<rparr>, dstLines = [js ''AAA'']\<rparr>) 0]"
      by (simp add: sortEdits_def editBefore_def annotate_def upt_rec)
    have tl: "collectExplicitlyTouchedLines [\<lparr>spec = Single \<lparr>line = 2, hash = js ''5f''\<rparr>, dstLines = [js ''AAA'']\<rparr>, \<lparr>spec = InsertAfter \<lparr>line = 4, hash = js ''00''\<rparr>, dstLines = [js ''X'']\<rparr>] = {2, 4}"
      by (auto simp: collectExplicitlyTouchedLines_def)
    have ab: "applyEdit [js ''zzz'', js ''aaa'', js ''bbb'', js ''ccc''] {2, 4} \<lparr>fileLines = [js ''zzz'', js ''aaa'', js ''bbb'', js ''ccc''], firstChangedLine = None, noopEdits = []\<rparr>
                (annotate (\<lparr>spec = InsertAfter \<lparr>line = 4, hash = js ''00''\<rparr>, dstLines = [js ''X'']\<rparr>) 1)
              = \<lparr>fileLines = [js ''zzz'', js ''aaa'', js ''bbb'', js ''ccc'', js ''X''],
                 firstChangedLine = Some 5, noopEdits = []\<rparr>"
      by (simp add: applyEdit_def stripInsertAnchorEchoAfter_def splice_def trackFirstChanged_def
            Let_def)
    have mg2: "maybeExpandSingleLineMerge [js ''zzz'', js ''aaa'', js ''bbb'', js ''ccc'', js ''X'']
                 {2, 4} 2 [js ''AAA''] = None"
      by (simp add: maybeExpandSingleLineMerge_def stripAllWhitespace_def
            stripTrailingContinuationTokens_def stripMergeOperatorChars_def continuationChars_def
            indexOf_def str_defs Let_def)
    have ac: "applyEdit [js ''zzz'', js ''aaa'', js ''bbb'', js ''ccc''] {2, 4}
                \<lparr>fileLines = [js ''zzz'', js ''aaa'', js ''bbb'', js ''ccc'', js ''X''],
                 firstChangedLine = Some 5, noopEdits = []\<rparr>
                (annotate (\<lparr>spec = Single \<lparr>line = 2, hash = js ''5f''\<rparr>, dstLines = [js ''AAA'']\<rparr>) 0)
              = \<lparr>fileLines = [js ''zzz'', js ''AAA'', js ''bbb'', js ''ccc'', js ''X''],
                 firstChangedLine = Some 2, noopEdits = []\<rparr>"
      using mg2 rr
      by (simp add: applyEdit_def slice_def splice_def trackFirstChanged_def Let_def)
         (simp add: str_defs)
    show ?thesis
      unfolding applyValidated_def Let_def dd so tl using ab ac by simp
  qed
  have h11: "[SetLineEdit (js ''1:5f'') (js ''AAA''), InsertAfterEdit (js ''3:00'') (js ''X'')] \<noteq> []
      \<and> parseEdits [SetLineEdit (js ''1:5f'') (js ''AAA''), InsertAfterEdit (js ''3:00'') (js ''X'')] = Inr [\<lparr>spec = Single \<lparr>line = 1, hash = js ''5f''\<rparr>, dstLines = [js ''AAA'']\<rparr>, \<lparr>spec = InsertAfter \<lparr>line = 3, hash = js ''00''\<rparr>, dstLines = [js ''X'']\<rparr>]
      \<and> validateAll xxHash32 (splitLF (joinLF [js ''zzz'', js ''aaa'', js ''bbb'', js ''ccc''])) [\<lparr>spec = Single \<lparr>line = 1, hash = js ''5f''\<rparr>, dstLines = [js ''AAA'']\<rparr>, \<lparr>spec = InsertAfter \<lparr>line = 3, hash = js ''00''\<rparr>, dstLines = [js ''X'']\<rparr>] = Inr ([\<lparr>spec = Single \<lparr>line = 2, hash = js ''5f''\<rparr>, dstLines = [js ''AAA'']\<rparr>, \<lparr>spec = InsertAfter \<lparr>line = 4, hash = js ''00''\<rparr>, dstLines = [js ''X'']\<rparr>], [])"
    using pe va by simp
  have w11: "\<exists>r. applyHashlineEdits xxHash32 (joinLF [js ''zzz'', js ''aaa'', js ''bbb'', js ''ccc''])
               [SetLineEdit (js ''1:5f'') (js ''AAA''), InsertAfterEdit (js ''3:00'') (js ''X'')] = Inr r
          \<and> content r = joinLF [js ''zzz'', js ''AAA'', js ''bbb'', js ''ccc'', js ''X'']
          \<and> resultFirstChangedLine r = Some 2 \<and> resultNoopEdits r = []"
    using T[THEN conjunct2, THEN conjunct2, THEN conjunct2, THEN conjunct2, THEN conjunct2, THEN conjunct2, THEN conjunct2, THEN conjunct2, THEN conjunct2, THEN conjunct2, THEN conjunct1, THEN mp, OF h11, THEN conjunct2, THEN conjunct2] unfolding sl av by simp
  show ?thesis
    by (intro conjI ca w2 linesWithHash_zabc linesWithHash_ff_zabc w3 w4 w4b w5 w6 w6b w7 w8 w9 w10 w11)
qed

text \<open>
  As stated for every anchor, claim C3 fails for the start of a range. In the file
  \<open>zzz, aaa, bbb, ccc\<close> the anchor \<open>1:5f\<close> names line 1, whose fingerprint is \<open>10\<close>,
  and \<open>5f\<close> is the fingerprint of line 2 alone; the end anchor \<open>3:67\<close> is accepted as it
  is. The relocated range would span two lines instead of three, so the batch ends in a
  mismatch error and nothing is edited.
\<close>

theorem range_relocation_discarded_counterexample:
  "computeLineHash xxHash32 (js ''zzz'') = js ''10''
   \<and> linesWithHash xxHash32 (js ''5f'') [js ''zzz'', js ''aaa'', js ''bbb'', js ''ccc''] 1 = [2]
   \<and> applyHashlineEdits xxHash32 (joinLF [js ''zzz'', js ''aaa'', js ''bbb'', js ''ccc''])
         [ReplaceLinesEdit (js ''1:5f'') (js ''3:67'') (js ''X'')]
       = Inl (HashlineMismatchError
               [\<lparr>mismatchLine = 1, expected = js ''5f'', actual = js ''10''\<rparr>,
                \<lparr>mismatchLine = 3, expected = js ''67'', actual = js ''67''\<rparr>]
               [js ''zzz'', js ''aaa'', js ''bbb'', js ''ccc''])"
proof -
  have lw: "toLowerCase (js ''5f'') = js ''5f''" "toLowerCase (js ''67'') = js ''67''"
    by (simp_all add: toLowerCase_def js_def)
  have ne: "js ''10'' \<noteq> js ''5f''" by (simp add: js_def)
  have pe: "parseEdits [ReplaceLinesEdit (js ''1:5f'') (js ''3:67'') (js ''X'')]
              = Inr [\<lparr>spec = Range \<lparr>line = 1, hash = js ''5f''\<rparr> \<lparr>line = 3, hash = js ''67''\<rparr>,
                      dstLines = [js ''X'']\<rparr>]"
    by (simp add: parse_defs str_defs)
  have ve: "validateEdit xxHash32 [js ''zzz'', js ''aaa'', js ''bbb'', js ''ccc'']
         \<lparr>spec = Range \<lparr>line = 1, hash = js ''5f''\<rparr> \<lparr>line = 3, hash = js ''67''\<rparr>,
          dstLines = [js ''X'']\<rparr>
       = Inr (\<lparr>spec = Range \<lparr>line = 1, hash = js ''5f''\<rparr> \<lparr>line = 3, hash = js ''67''\<rparr>,
               dstLines = [js ''X'']\<rparr>,
              [\<lparr>mismatchLine = 1, expected = js ''5f'', actual = js ''10''\<rparr>,
               \<lparr>mismatchLine = 3, expected = js ''67'', actual = js ''67''\<rparr>])"
    using validateEdit_range_discarded
            [of "\<lparr>line = 1, hash = js ''5f''\<rparr>" "\<lparr>line = 3, hash = js ''67''\<rparr>"
                "[js ''zzz'', js ''aaa'', js ''bbb'', js ''ccc'']" xxHash32 2 "[js ''X'']"]
          ne linesWithHash_zabc
    by (simp add: lw hashes_zabc buildMismatch_def)
  have r: "applyHashlineEdits xxHash32 (joinLF [js ''zzz'', js ''aaa'', js ''bbb'', js ''ccc''])
         [ReplaceLinesEdit (js ''1:5f'') (js ''3:67'') (js ''X'')]
       = Inl (HashlineMismatchError
               [\<lparr>mismatchLine = 1, expected = js ''5f'', actual = js ''10''\<rparr>,
                \<lparr>mismatchLine = 3, expected = js ''67'', actual = js ''67''\<rparr>]
               [js ''zzz'', js ''aaa'', js ''bbb'', js ''ccc''])"
    unfolding applyHashlineEdits_def pe split_zabc using ve by (simp add: Let_def)
  show ?thesis by (intro conjI hashes_zabc(1) linesWithHash_zabc r)
qed


subsection \<open>The end anchor of a one-line range is not relocated\<close>

text \<open>
  In the file \<open>zzz, aaa\<close> the end anchor \<open>1:5f\<close> names line 1, whose fingerprint is
  \<open>10\<close>, and \<open>5f\<close> is the fingerprint of line 2 alone. The edit is parsed to a
  single-line edit with the start anchor \<open>1:10\<close>: the end anchor is neither relocated nor
  counted as a mismatch, and line 1 is replaced.
\<close>

lemma same_line_end_anchor_not_relocated:
  "checkedAnchors (ReplaceLinesEdit (js ''1:10'') (js ''1:5f'') (js ''X'')) = [js ''1:10'']
   \<and> computeLineHash xxHash32 (js ''zzz'') = js ''10''
   \<and> linesWithHash xxHash32 (js ''5f'') [js ''zzz'', js ''aaa''] 1 = [2]
   \<and> applyHashlineEdits xxHash32 (joinLF [js ''zzz'', js ''aaa''])
         [ReplaceLinesEdit (js ''1:10'') (js ''1:5f'') (js ''X'')]
       = Inr \<lparr>content = joinLF [js ''X'', js ''aaa''], resultFirstChangedLine = Some 1,
              warnings = [], resultNoopEdits = []\<rparr>"
proof -
  have p1: "parseLineRef (js ''1:10'') = Inr \<lparr>line = 1, hash = js ''10''\<rparr>"
    and p2: "parseLineRef (js ''1:5f'') = Inr \<lparr>line = 1, hash = js ''5f''\<rparr>"
    by (simp_all add: parse_defs str_defs)
  have ne: "js ''1:5f'' \<noteq> []" by (simp add: js_def)
  have sm: "line \<lparr>line = 1, hash = js ''10''\<rparr> = line \<lparr>line = 1, hash = js ''5f''\<rparr>" by simp
  note ps = parseHashlineEdit_same_line[OF ne p1 p2 sm, of "js ''X''"]
  have sl: "splitLF (joinLF [js ''zzz'', js ''aaa'']) = [js ''zzz'', js ''aaa'']"
    by (simp add: str_defs)
  have lh: "linesWithHash xxHash32 (js ''5f'') [js ''zzz'', js ''aaa''] 1 = [2]"
    by (simp add: hashes_zabc) (simp add: js_def)
  have dst: "stripNewLinePrefixes (splitDstLines (js ''X'')) = [js ''X'']"
    by (simp add: parse_defs str_defs)
  have lw: "toLowerCase (js ''10'') = js ''10''" by (simp add: toLowerCase_def js_def)
  have ve: "validateEdit xxHash32 (splitLF (joinLF [js ''zzz'', js ''aaa'']))
              \<lparr>spec = Single \<lparr>line = 1, hash = js ''10''\<rparr>,
               dstLines = stripNewLinePrefixes (splitDstLines (js ''X''))\<rparr>
            = Inr (\<lparr>spec = Single \<lparr>line = 1, hash = js ''10''\<rparr>, dstLines = [js ''X'']\<rparr>, [])"
    unfolding sl dst
    by (simp add: validateEdit_def validateOrRelocateRef_def lw hashes_zabc Let_def)
  have mg: "maybeExpandSingleLineMerge [js ''zzz'', js ''aaa''] {1} 1 [js ''X''] = None"
    by (simp add: maybeExpandSingleLineMerge_def stripAllWhitespace_def
          stripTrailingContinuationTokens_def stripMergeOperatorChars_def continuationChars_def
          indexOf_def str_defs Let_def)
  have rr: "resolveReplacement [js ''zzz'', js ''aaa''] 1 1 [js ''X''] = [js ''X'']"
    by (simp add: resolveReplacement_def slice_def stripRangeBoundaryEcho_def
          restoreOldWrappedLines_def restoreIndentForPairedReplacement_def restoreLeadingIndent_def
          leadingWhitespace_def hyphenFallback_def str_defs Let_def)
  have ap: "applyEdit [js ''zzz'', js ''aaa'']
              (collectExplicitlyTouchedLines
                 [\<lparr>spec = Single \<lparr>line = 1, hash = js ''10''\<rparr>, dstLines = [js ''X'']\<rparr>])
              \<lparr>fileLines = [js ''zzz'', js ''aaa''], firstChangedLine = None, noopEdits = []\<rparr>
              (annotate \<lparr>spec = Single \<lparr>line = 1, hash = js ''10''\<rparr>, dstLines = [js ''X'']\<rparr> 0)
            = \<lparr>fileLines = [js ''X'', js ''aaa''], firstChangedLine = Some 1, noopEdits = []\<rparr>"
    using mg rr
    by (simp add: applyEdit_def collectExplicitlyTouchedLines_def slice_def splice_def
          trackFirstChanged_def Let_def) (simp add: str_defs)
  have r: "applyHashlineEdits xxHash32 (joinLF [js ''zzz'', js ''aaa''])
         [ReplaceLinesEdit (js ''1:10'') (js ''1:5f'') (js ''X'')]
       = Inr \<lparr>content = joinLF [js ''X'', js ''aaa''], resultFirstChangedLine = Some 1,
              warnings = [], resultNoopEdits = []\<rparr>"
    using applyHashlineEdits_single[OF ps[THEN conjunct1] ve]
    unfolding sl ap
    by (simp add: singleResult_def diffLineCount_def)
  show ?thesis by (intro conjI ps[THEN conjunct2] hashes_zabc(1) lh r)
qed

section \<open>Results on substring replacement\<close>

subsection \<open>A target that is not found\<close>

lemma findAt_None_shift: "findAt t s i = None \<Longrightarrow> findAt t s j = None"
  by (induction s arbitrary: i j) (auto split: if_splits)

lemma splitOn_not_found:
  "t \<noteq> [] \<Longrightarrow> findAt t s i = None \<Longrightarrow> splitOn t acc s = [acc @ s]"
proof (induction s arbitrary: acc i)
  case Nil then show ?case by simp
next
  case (Cons c cs)
  from Cons.prems(2) have np: "\<not> prefix t (c # cs)" and r: "findAt t cs (Suc i) = None"
    by (auto split: if_splits)
  from Cons.IH[OF Cons.prems(1) r, of "acc @ [c]"] np show ?case by simp
qed

lemma jsSplit_not_found: "t \<noteq> [] \<Longrightarrow> indexOf s t = None \<Longrightarrow> jsSplit t s = [s]"
  by (simp add: jsSplit_def indexOf_def splitOn_not_found)

lemma normalizeToLF_nonempty: "s \<noteq> [] \<Longrightarrow> normalizeToLF s \<noteq> []"
proof -
  have "s \<noteq> [] \<Longrightarrow> replaceCRLF s \<noteq> []"
    by (induction s rule: replaceCRLF.induct) auto
  then show "s \<noteq> [] \<Longrightarrow> normalizeToLF s \<noteq> []"
    by (simp add: normalizeToLF_def replaceCR_def)
qed

lemma coreStep_counted:
  "counted thr (best st) (aboveThresholdCount st)
     \<Longrightarrow> counted thr (best (coreStep rt cls tls offs thr d st s))
           (aboveThresholdCount (coreStep rt cls tls offs thr d st s))"
  by (auto simp: coreStep_def counted_def Let_def split: option.splits)

lemma foldl_coreStep_counted:
  "counted thr (best st) (aboveThresholdCount st)
     \<Longrightarrow> counted thr (best (foldl (coreStep rt cls tls offs thr d) st ss))
           (aboveThresholdCount (foldl (coreStep rt cls tls offs thr d) st ss))"
  by (induction ss arbitrary: st) (simp_all add: coreStep_counted)

lemma findBestFuzzyMatchCore_counted:
  "counted thr (best (findBestFuzzyMatchCore rt cls tls offs thr d))
     (aboveThresholdCount (findBestFuzzyMatchCore rt cls tls offs thr d))"
proof -
  have "counted thr (best \<lparr>best = None, aboveThresholdCount = 0, secondBestScore = - 1, bestScore = - 1\<rparr>)
          (aboveThresholdCount \<lparr>best = None, aboveThresholdCount = 0, secondBestScore = - 1, bestScore = - 1\<rparr>)"
    by (simp add: counted_def)
  from foldl_coreStep_counted[OF this] show ?thesis
    by (simp add: findBestFuzzyMatchCore_def Let_def)
qed

lemma findBestFuzzyMatch_counted:
  "counted thr (best (findBestFuzzyMatch rt c t thr)) (aboveThresholdCount (findBestFuzzyMatch rt c t thr))"
  using findBestFuzzyMatchCore_counted[of thr rt "splitLF c" "splitLF t" "computeLineOffsets (splitLF c)" True]
        findBestFuzzyMatchCore_counted[of thr rt "splitLF c" "splitLF t" "computeLineOffsets (splitLF c)" False]
  by (auto simp: findBestFuzzyMatch_def Let_def counted_def split: option.splits)

text \<open>Without an accepted match, the loop of the branch \<open>all\<close> does not use the closest one.\<close>

lemma no_match_no_closest:
  assumes "indexOf c t = None"
    and "matched (findMatch rt c t fz (Some thr)) = None"
  shows "\<not> (fz \<and> (case closest (findMatch rt c t fz (Some thr)) of
                      None \<Rightarrow> False
                    | Some m \<Rightarrow> confidence m \<ge> thr
                        \<and> (case fuzzyMatches (findMatch rt c t fz (Some thr)) of
                              None \<Rightarrow> True | Some n \<Rightarrow> n \<le> 1)))"
proof (cases "length t = 0")
  case True
  then show ?thesis by (simp add: findMatch_def emptyOutcome_def)
next
  case False
  show ?thesis
  proof (cases "best (findBestFuzzyMatch rt c t thr)")
    case None
    with False assms(1) show ?thesis by (simp add: findMatch_def emptyOutcome_def)
  next
    case (Some b)
    have cnt: "confidence b \<ge> thr \<longrightarrow> aboveThresholdCount (findBestFuzzyMatch rt c t thr) \<ge> 1"
      using findBestFuzzyMatch_counted[of thr rt c t] Some by (simp add: counted_def)
    from assms(2) False assms(1) Some
    have nm: "\<not> (fz \<and> confidence b \<ge> thr \<and> aboveThresholdCount (findBestFuzzyMatch rt c t thr) = 1)"
      by (auto simp: findMatch_def emptyOutcome_def Let_def split: if_splits)
    from assms(2) False assms(1) Some
    have out: "closest (findMatch rt c t fz (Some thr)) = Some b
               \<and> fuzzyMatches (findMatch rt c t fz (Some thr))
                    = Some (aboveThresholdCount (findBestFuzzyMatch rt c t thr))"
      by (auto simp: findMatch_def emptyOutcome_def Let_def split: if_splits)
    show ?thesis using out nm cnt by auto
  qed
qed

lemma replaceAllLoop_not_found:
  assumes "indexOf c t = None"
    and "matched (findMatch rt c t fz (Some thr)) = None"
  shows "replaceAllLoop rt t n fz thr c k = Some \<lparr>resultContent = c, resultCount = k\<rparr>"
proof -
  have a: "(fz \<and> (case closest (findMatch rt c t fz (Some thr)) of
                      None \<Rightarrow> False
                    | Some m \<Rightarrow> confidence m \<ge> thr
                        \<and> (case fuzzyMatches (findMatch rt c t fz (Some thr)) of
                              None \<Rightarrow> True | Some n \<Rightarrow> n \<le> 1))) = False"
    using no_match_no_closest[OF assms] by (rule eq_False[THEN iffD2])
  show ?thesis
    by (subst replaceAllLoop.simps) (simp only: Let_def a assms(2) option.simps if_False)
qed

lemma replaceText_not_found:
  assumes ne: "oldText \<noteq> []"
    and ex: "indexOf (normalizeToLF cont) (normalizeToLF oldText) = None"
    and nm: "matched (findMatch rt (normalizeToLF cont) (normalizeToLF oldText) (fuzzy opts)
                       (Some (case threshold opts of Some t \<Rightarrow> t | None \<Rightarrow> DEFAULT_FUZZY_THRESHOLD)))
               = None"
  shows "replaceText rt cont oldText newText opts
           = Some (Inr \<lparr>resultContent = normalizeToLF cont, resultCount = 0\<rparr>)"
proof (cases "replaceAll opts")
  case True
  have "jsSplit (normalizeToLF oldText) (normalizeToLF cont) = [normalizeToLF cont]"
    using jsSplit_not_found[OF normalizeToLF_nonempty[OF ne] ex] .
  with True ne replaceAllLoop_not_found[OF ex nm] show ?thesis
    by (simp add: replaceText_def Let_def)
next
  case False
  have "occurrences (findMatch rt (normalizeToLF cont) (normalizeToLF oldText) (fuzzy opts)
                       (Some (case threshold opts of Some t \<Rightarrow> t | None \<Rightarrow> DEFAULT_FUZZY_THRESHOLD)))
          = None"
    using ex by (simp add: findMatch_def emptyOutcome_def Let_def split: option.splits)
  with False ne nm show ?thesis
    by (simp add: replaceText_def Let_def)
qed


lemma edit_file_replace_not_found:
  assumes ne: "old_text \<noteq> []"
    and ex: "indexOf (normalizeToLF (bomText (stripBom raw))) (normalizeToLF old_text) = None"
    and nm: "matched (findMatch rt (normalizeToLF (bomText (stripBom raw))) (normalizeToLF old_text)
                       True (Some DEFAULT_FUZZY_THRESHOLD)) = None"
  shows "edit_file xxh rt raw [ReplaceEdit old_text new_text all] = Some (Inl (NoChangesMade []))"
proof -
  let ?c0 = "normalizeToLF (bomText (stripBom raw))"
  have idem: "normalizeToLF ?c0 = ?c0"
    by (rule normalizeToLF_noCR) (rule CR_notin_normalizeToLF)
  have rep: "replaceText rt ?c0 old_text new_text
               \<lparr>fuzzy = True, replaceAll = (case all of Some b \<Rightarrow> b | None \<Rightarrow> False),
                threshold = Some DEFAULT_FUZZY_THRESHOLD\<rparr>
             = Some (Inr \<lparr>resultContent = ?c0, resultCount = 0\<rparr>)"
    using replaceText_not_found[of old_text ?c0 rt
            "\<lparr>fuzzy = True, replaceAll = (case all of Some b \<Rightarrow> b | None \<Rightarrow> False),
              threshold = Some DEFAULT_FUZZY_THRESHOLD\<rparr>" new_text]
          ne ex nm idem by simp
  have ar: "applyReplaceEdits rt ?c0 [ReplaceEdit old_text new_text all] = Some (Inr ?c0)"
    using ne rep by simp
  show ?thesis
    using ar by (simp add: edit_file_def Let_def isReplaceEdit_def applyHashlineEdits_def)
qed

text \<open>
  Claim C10, amended. When the target of a substring replacement is not empty, has no
  exact occurrence in the content and the fuzzy matcher accepts no match, \<open>replaceText\<close>
  returns, in both branches and without an error, the count 0 and the content with its
  line endings normalised to line feeds; this is the content itself when it has no
  carriage return, as is the case for every content that \<open>edit_file\<close> passes. A request
  consisting of such a replacement alone ends in the error of a batch without change,
  and the file stays as it was.
\<close>

theorem replaceText_not_found_is_no_error:
  "(oldText \<noteq> []
      \<and> indexOf (normalizeToLF cont) (normalizeToLF oldText) = None
      \<and> matched (findMatch rt (normalizeToLF cont) (normalizeToLF oldText) (fuzzy opts)
                   (Some (case threshold opts of Some t \<Rightarrow> t | None \<Rightarrow> DEFAULT_FUZZY_THRESHOLD)))
            = None
    \<longrightarrow> replaceText rt cont oldText newText opts
          = Some (Inr \<lparr>resultContent = normalizeToLF cont, resultCount = 0\<rparr>)
        \<and> (CR \<notin> set cont
             \<longrightarrow> replaceText rt cont oldText newText opts
                   = Some (Inr \<lparr>resultContent = cont, resultCount = 0\<rparr>)))
   \<and> (old_text \<noteq> []
      \<and> indexOf (normalizeToLF (bomText (stripBom raw))) (normalizeToLF old_text) = None
      \<and> matched (findMatch rt (normalizeToLF (bomText (stripBom raw))) (normalizeToLF old_text)
                   True (Some DEFAULT_FUZZY_THRESHOLD)) = None
    \<longrightarrow> edit_file xxh rt raw [ReplaceEdit old_text new_text all] = Some (Inl (NoChangesMade []))
        \<and> fileAfter raw (edit_file xxh rt raw [ReplaceEdit old_text new_text all]) = raw)"
proof (intro conjI impI)
  assume h: "oldText \<noteq> []
      \<and> indexOf (normalizeToLF cont) (normalizeToLF oldText) = None
      \<and> matched (findMatch rt (normalizeToLF cont) (normalizeToLF oldText) (fuzzy opts)
                   (Some (case threshold opts of Some t \<Rightarrow> t | None \<Rightarrow> DEFAULT_FUZZY_THRESHOLD)))
            = None"
  then show r: "replaceText rt cont oldText newText opts
          = Some (Inr \<lparr>resultContent = normalizeToLF cont, resultCount = 0\<rparr>)"
    using replaceText_not_found by blast
  assume "CR \<notin> set cont"
  then show "replaceText rt cont oldText newText opts
                   = Some (Inr \<lparr>resultContent = cont, resultCount = 0\<rparr>)"
    using r by (simp add: normalizeToLF_noCR)
next
  assume h: "old_text \<noteq> []
      \<and> indexOf (normalizeToLF (bomText (stripBom raw))) (normalizeToLF old_text) = None
      \<and> matched (findMatch rt (normalizeToLF (bomText (stripBom raw))) (normalizeToLF old_text)
                   True (Some DEFAULT_FUZZY_THRESHOLD)) = None"
  then show e: "edit_file xxh rt raw [ReplaceEdit old_text new_text all] = Some (Inl (NoChangesMade []))"
    using edit_file_replace_not_found by blast
  then show "fileAfter raw (edit_file xxh rt raw [ReplaceEdit old_text new_text all]) = raw"
    by (simp add: fileAfter_def)
qed

lemmas match_defs = findMatch_def findBestFuzzyMatch_def emptyOutcome_def indexOf_def

theorem replaceText_not_found_is_no_error_witness:
  "js ''x'' @ [LF] @ js ''y'' \<noteq> []
   \<and> indexOf (normalizeToLF (js ''abc'')) (normalizeToLF (js ''x'' @ [LF] @ js ''y'')) = None
   \<and> matched (findMatch zeroScoreRuntime (normalizeToLF (js ''abc''))
                (normalizeToLF (js ''x'' @ [LF] @ js ''y'')) True (Some DEFAULT_FUZZY_THRESHOLD)) = None
   \<and> CR \<notin> set (js ''abc'')
   \<and> replaceText zeroScoreRuntime (js ''abc'') (js ''x'' @ [LF] @ js ''y'') (js ''w'')
         \<lparr>fuzzy = True, replaceAll = True, threshold = Some DEFAULT_FUZZY_THRESHOLD\<rparr>
       = Some (Inr \<lparr>resultContent = js ''abc'', resultCount = 0\<rparr>)
   \<and> edit_file xxHash32 zeroScoreRuntime (js ''abc'')
         [ReplaceEdit (js ''x'' @ [LF] @ js ''y'') (js ''w'') None] = Some (Inl (NoChangesMade []))"
proof -
  have n1: "normalizeToLF (js ''abc'') = js ''abc''"
    by (simp add: normalizeToLF_def replaceCR_def js_def CR_def LF_def)
  have n2: "normalizeToLF (js ''x'' @ [LF] @ js ''y'') = js ''x'' @ [LF] @ js ''y''"
    by (simp add: normalizeToLF_def replaceCR_def js_def CR_def LF_def)
  have b: "bomText (stripBom (js ''abc'')) = js ''abc''"
    by (simp add: stripBom_def js_def BOM_def)
  have h1: "js ''x'' @ [LF] @ js ''y'' \<noteq> []" by simp
  have h2: "indexOf (normalizeToLF (js ''abc'')) (normalizeToLF (js ''x'' @ [LF] @ js ''y'')) = None"
    unfolding n1 n2 by (simp add: indexOf_def js_def LF_def)
  have h3: "matched (findMatch zeroScoreRuntime (normalizeToLF (js ''abc''))
                (normalizeToLF (js ''x'' @ [LF] @ js ''y'')) True (Some DEFAULT_FUZZY_THRESHOLD)) = None"
    unfolding n1 n2 by (simp add: match_defs js_def LF_def)
  have h4: "CR \<notin> set (js ''abc'')" by (simp add: js_def CR_def)
  note T = replaceText_not_found_is_no_error
             [of "js ''x'' @ [LF] @ js ''y''" "js ''abc''" zeroScoreRuntime
                 "\<lparr>fuzzy = True, replaceAll = True, threshold = Some DEFAULT_FUZZY_THRESHOLD\<rparr>"
                 "js ''w''" "js ''x'' @ [LF] @ js ''y''" "js ''abc''" xxHash32 "js ''w''" None]
  have c1: "replaceText zeroScoreRuntime (js ''abc'') (js ''x'' @ [LF] @ js ''y'') (js ''w'')
         \<lparr>fuzzy = True, replaceAll = True, threshold = Some DEFAULT_FUZZY_THRESHOLD\<rparr>
       = Some (Inr \<lparr>resultContent = js ''abc'', resultCount = 0\<rparr>)"
    using T[THEN conjunct1] h1 h2 h3 h4 by (simp add: n1)
  have c2: "edit_file xxHash32 zeroScoreRuntime (js ''abc'')
         [ReplaceEdit (js ''x'' @ [LF] @ js ''y'') (js ''w'') None] = Some (Inl (NoChangesMade []))"
    using T[THEN conjunct2] h1 h2 h3 unfolding b by simp
  show ?thesis by (intro conjI h1 h2 h3 h4 c1 c2)
qed

text \<open>
  As stated, claim C10 fails on a content with a carriage return: the target is not
  found, and the content comes back with the carriage return replaced.
\<close>

theorem replaceText_not_found_normalizes_counterexample:
  "indexOf (normalizeToLF [0x61, CR]) (normalizeToLF (js ''x'' @ [LF] @ js ''y'' @ [LF] @ js ''z'')) = None
   \<and> matched (findMatch zeroScoreRuntime (normalizeToLF [0x61, CR])
                (normalizeToLF (js ''x'' @ [LF] @ js ''y'' @ [LF] @ js ''z'')) True
                (Some DEFAULT_FUZZY_THRESHOLD)) = None
   \<and> replaceText zeroScoreRuntime [0x61, CR] (js ''x'' @ [LF] @ js ''y'' @ [LF] @ js ''z'') (js ''w'')
         \<lparr>fuzzy = True, replaceAll = False, threshold = Some DEFAULT_FUZZY_THRESHOLD\<rparr>
       = Some (Inr \<lparr>resultContent = [0x61, LF], resultCount = 0\<rparr>)
   \<and> [0x61, LF] \<noteq> [0x61, CR]"
proof -
  have n1: "normalizeToLF [0x61, CR] = [0x61, LF]"
    by (simp add: normalizeToLF_def replaceCR_def CR_def LF_def)
  have n2: "normalizeToLF (js ''x'' @ [LF] @ js ''y'' @ [LF] @ js ''z'')
              = js ''x'' @ [LF] @ js ''y'' @ [LF] @ js ''z''"
    by (simp add: normalizeToLF_def replaceCR_def js_def CR_def LF_def)
  have h2: "indexOf [0x61, LF] (js ''x'' @ [LF] @ js ''y'' @ [LF] @ js ''z'') = None"
    by (simp add: indexOf_def js_def LF_def)
  have h3: "matched (findMatch zeroScoreRuntime [0x61, LF]
                (js ''x'' @ [LF] @ js ''y'' @ [LF] @ js ''z'') True
                (Some DEFAULT_FUZZY_THRESHOLD)) = None"
    by (simp add: match_defs js_def LF_def)
  have h4: "occurrences (findMatch zeroScoreRuntime [0x61, LF]
                (js ''x'' @ [LF] @ js ''y'' @ [LF] @ js ''z'') True
                (Some DEFAULT_FUZZY_THRESHOLD)) = None"
    by (simp add: match_defs js_def LF_def)
  have r: "replaceText zeroScoreRuntime [0x61, CR] (js ''x'' @ [LF] @ js ''y'' @ [LF] @ js ''z'') (js ''w'')
         \<lparr>fuzzy = True, replaceAll = False, threshold = Some DEFAULT_FUZZY_THRESHOLD\<rparr>
       = Some (Inr \<lparr>resultContent = [0x61, LF], resultCount = 0\<rparr>)"
    using h3 h4 n1 n2 by (simp add: replaceText_def Let_def)
  have d: "[0x61, LF] \<noteq> [0x61, CR]" by (simp add: CR_def LF_def)
  show ?thesis unfolding n1 n2 using h2 h3 r d by simp
qed

subsection \<open>Exact occurrences\<close>

lemmas replace_eval_defs = replaceText_def findMatch_def emptyOutcome_def indexOf_def indexOfFrom_def
  jsSplit_def adjustIndentation_def normalizeToLF_def replaceCR_def js_def LF_def CR_def
  DEFAULT_FUZZY_THRESHOLD_def

text \<open>
  The example of the specification: with \<open>all\<close>, the three occurrences of \<open>cat\<close>
  are replaced and counted.
\<close>

lemma replaceText_all_example:
  "replaceText rt (joinLF [js ''cat'', js ''dog'', js ''cat'', js ''bird'', js ''cat''])
     (js ''cat'') (js ''CAT'') \<lparr>fuzzy = True, replaceAll = True, threshold = None\<rparr>
   = Some (Inr \<lparr>resultContent = joinLF [js ''CAT'', js ''dog'', js ''CAT'', js ''bird'', js ''CAT''],
                resultCount = 3\<rparr>)"
  by (simp add: replace_eval_defs joinLF_def)

text \<open>
  Claim C8 at an input where the occurrences of the target overlap. The target \<open>aa\<close>
  occurs in \<open>aaa\<close> at the positions 0 and 1, the number of pieces of
  \<open>content.split(target)\<close> counts one occurrence, and \<open>replaceText\<close> without \<open>all\<close>
  replaces the first one and raises no error.
\<close>

theorem replaceText_overlapping_occurrences:
  "indexOfFrom (js ''aaa'') (js ''aa'') 0 = Some 0
   \<and> indexOfFrom (js ''aaa'') (js ''aa'') 1 = Some 1
   \<and> length (jsSplit (js ''aa'') (js ''aaa'')) - 1 = 1
   \<and> replaceText rt (js ''aaa'') (js ''aa'') (js ''X'')
         \<lparr>fuzzy = True, replaceAll = False, threshold = Some DEFAULT_FUZZY_THRESHOLD\<rparr>
       = Some (Inr \<lparr>resultContent = js ''Xa'', resultCount = 1\<rparr>)"
  by (simp add: replace_eval_defs)

section \<open>Results on the round trip of a file\<close>

subsection \<open>Rendered anchors are parsed back\<close>

lemma isLowerHex_cases:
  "isLowerHex c \<Longrightarrow> isAlnum c \<and> \<not> isSpace c \<and> c \<noteq> 0x7C \<and> c \<noteq> 0x3A \<and> c \<noteq> 0x20
     \<and> \<not> (0x41 \<le> c \<and> c \<le> 0x5A)"
  unfolding isLowerHex_def js_def
  by (simp, elim disjE) (simp_all add: isAlnum_def isDigit_def isSpace_def)

lemma isDigit_cases: "isDigit c \<Longrightarrow> \<not> isSpace c \<and> c \<noteq> 0x7C \<and> c \<noteq> 0x3A \<and> c \<noteq> 0x20"
  by (auto simp: isDigit_def isSpace_def)

lemma digitChar_cases: "d < 10 \<Longrightarrow> isDigit (digitChar d) \<and> unat (digitChar d) = 48 + d"
proof -
  assume "d < 10"
  then have "d = 0 \<or> d = 1 \<or> d = 2 \<or> d = 3 \<or> d = 4 \<or> d = 5 \<or> d = 6 \<or> d = 7 \<or> d = 8 \<or> d = 9"
    by arith
  then show ?thesis by (elim disjE) (simp_all add: digitChar_def isDigit_def)
qed

lemma showNat_digits: "list_all isDigit (showNat n) \<and> showNat n \<noteq> []"
proof (induction n rule: showNat.induct)
  case (1 n)
  show ?case
  proof (cases "n < 10")
    case True
    then show ?thesis using digitChar_cases[of n] by (subst (1 2) showNat.simps) simp
  next
    case False
    then show ?thesis using 1 digitChar_cases[of "n mod 10"]
      by (subst (1 2) showNat.simps) simp
  qed
qed

lemma parseDecimal_snoc: "parseDecimal (xs @ [c]) = 10 * parseDecimal xs + (unat c - 48)"
  by (simp add: parseDecimal_def)

lemma parseDecimal_showNat: "parseDecimal (showNat n) = n"
proof (induction n rule: showNat.induct)
  case (1 n)
  show ?case
  proof (cases "n < 10")
    case True
    then have s: "showNat n = [digitChar n]" by (subst showNat.simps) simp
    show ?thesis unfolding s using digitChar_cases[OF True] by (simp add: parseDecimal_def)
  next
    case False
    then have s: "showNat n = showNat (n div 10) @ [digitChar (n mod 10)]"
      by (subst showNat.simps) simp
    have ih: "parseDecimal (showNat (n div 10)) = n div 10" using 1 False by simp
    have d: "unat (digitChar (n mod 10)) - 48 = n mod 10"
      using digitChar_cases[of "n mod 10"] by simp
    show ?thesis unfolding s parseDecimal_snoc ih d by simp
  qed
qed

lemma showNat_inj: "showNat a = showNat b \<Longrightarrow> a = b"
  by (metis parseDecimal_showNat)

lemma cutPipeTail_id: "0x7C \<notin> set s \<Longrightarrow> cutPipeTail s = s"
  by (induction s) simp_all

lemma cutDoubleSpaceTail_id: "0x20 \<notin> set s \<Longrightarrow> cutDoubleSpaceTail s = s"
  by (induction s rule: cutDoubleSpaceTail.induct) simp_all

lemma trimEnd_id: "s = [] \<or> \<not> isSpace (last s) \<Longrightarrow> trimEnd s = s"
  by (cases s rule: rev_cases) (simp_all add: trimEnd_def)

lemma trimStart_id: "s = [] \<or> \<not> isSpace (hd s) \<Longrightarrow> trimStart s = s"
  by (cases s) (simp_all add: trimStart_def)

lemma trim_id: "\<forall>c \<in> set s. \<not> isSpace c \<Longrightarrow> trim s = s"
proof -
  assume a: "\<forall>c \<in> set s. \<not> isSpace c"
  have "trimStart s = s" using a by (intro trimStart_id) (cases s, simp_all)
  moreover have "trimEnd s = s" using a by (intro trimEnd_id) (cases s rule: rev_cases, simp_all)
  ultimately show ?thesis by (simp add: trim_def)
qed

lemma parseLineRef_rendered:
  assumes "1 \<le> i" and "length h = 2" and "list_all isLowerHex h"
  shows "parseLineRef (showNat i @ js '':'' @ h) = Inr \<lparr>line = i, hash = h\<rparr>"
proof -
  let ?A = "showNat i @ js '':'' @ h"
  have colon: "js '':'' = [0x3A]" by (simp add: js_def)
  have dg: "\<forall>c \<in> set (showNat i). isDigit c" "showNat i \<noteq> []"
    using showNat_digits[of i] by (simp_all add: list_all_iff)
  have hx: "\<forall>c \<in> set h. isLowerHex c" using assms(3) by (simp add: list_all_iff)
  obtain h1 h2 where h: "h = [h1, h2]"
    using assms(2) by (cases h; cases "tl h"; cases "tl (tl h)") auto
  have nsp: "\<forall>c \<in> set ?A. \<not> isSpace c"
    using dg hx isDigit_cases isLowerHex_cases by (auto simp: colon isSpace_def)
  have np: "0x7C \<notin> set ?A"
    using dg hx isDigit_cases isLowerHex_cases by (auto simp: colon)
  have ns: "0x20 \<notin> set ?A"
    using dg hx isDigit_cases isLowerHex_cases by (auto simp: colon)
  have cl: "trim (cutDoubleSpaceTail (cutPipeTail ?A)) = ?A"
    by (simp only: cutPipeTail_id[OF np] cutDoubleSpaceTail_id[OF ns] trim_id[OF nsp])
  have tw: "takeWhile (\<lambda>c. c \<noteq> 0x3A) ?A = showNat i"
    using dg isDigit_cases by (simp add: colon takeWhile_append2) 
  have dw: "dropWhile (\<lambda>c. c \<noteq> 0x3A) ?A = 0x3A # h"
    using dg isDigit_cases by (simp add: colon dropWhile_append2)
  have te: "trimEnd (showNat i) = showNat i"
    using dg isDigit_cases by (intro trimEnd_id) simp
  have dh: "dropWhile isSpace h = h"
    using hx isLowerHex_cases unfolding h by simp
  have nc: "normalizeColon ?A = ?A"
    unfolding normalizeColon_def dw tw by (simp add: te dh colon)
  have nd: "\<not> isDigit 0x3A" by (simp add: isDigit_def)
  have twd: "takeWhile isDigit ?A = showNat i"
    using dg nd by (simp add: colon takeWhile_append2)
  have dwd: "dropWhile isDigit ?A = 0x3A # h"
    using dg nd by (simp add: colon dropWhile_append2)
  have al: "list_all isAlnum h" using hx isLowerHex_cases by (simp add: list_all_iff)
  have ml: "matchLineRef ?A = Some (showNat i, h)"
    unfolding matchLineRef_def twd dwd using dg(2) al assms(2) by (simp add: Let_def)
  show ?thesis
    unfolding parseLineRef_def Let_def cl nc ml using assms(1) by (simp add: parseDecimal_showNat)
qed

lemma computeLineHash_lowerHex:
  "length (computeLineHash xxh l) = 2 \<and> list_all isLowerHex (computeLineHash xxh l)"
  by (simp add: computeLineHash_eq isLowerHex_hexDigit)

lemma toLowerCase_lowerHex: "list_all isLowerHex h \<Longrightarrow> toLowerCase h = h"
  using isLowerHex_cases by (auto simp: toLowerCase_def list_all_iff intro!: map_idI)


subsection \<open>The round trip is parsed and validated\<close>

lemma splitDstLines_line:
  "LF \<notin> set l \<Longrightarrow> splitDstLines l = (if l = [] then [] else [l])"
  by (simp add: splitDstLines_def splitLF_line)

lemma stripNewLinePrefixes_plain:
  "plainLine l \<Longrightarrow> stripNewLinePrefixes (if l = [] then [] else [l]) = (if l = [] then [] else [l])"
  by (simp add: stripNewLinePrefixes_def plainLine_def Let_def)

lemma parseHashlineEdit_self:
  "1 \<le> i \<Longrightarrow> parseHashlineEdit (selfEdit xxh (i, l))
                 = Inr (Single \<lparr>line = i, hash = computeLineHash xxh l\<rparr>, l)"
  using parseLineRef_rendered[of i "computeLineHash xxh l"] computeLineHash_lowerHex[of xxh l]
  by (simp add: parseHashlineEdit_def selfEdit_def)

lemma parseEdits_self:
  assumes "1 \<le> n" and "\<forall>l \<in> set ls. plainLine l \<and> LF \<notin> set l"
  shows "parseEdits (map (selfEdit xxh) (enumerate n ls)) = Inr (map (selfParsed xxh) (enumerate n ls))"
  using assms
proof (induction ls arbitrary: n)
  case Nil then show ?case by simp
next
  case (Cons l ls)
  have ih: "parseEdits (map (selfEdit xxh) (enumerate (Suc n) ls))
              = Inr (map (selfParsed xxh) (enumerate (Suc n) ls))"
    using Cons.IH[of "Suc n"] Cons.prems by simp
  have pl: "plainLine l" "LF \<notin> set l" using Cons.prems(2) by simp_all
  have d: "stripNewLinePrefixes (splitDstLines l) = (if l = [] then [] else [l])"
    unfolding splitDstLines_line[OF pl(2)] by (rule stripNewLinePrefixes_plain[OF pl(1)])
  show ?case
    using parseHashlineEdit_self[OF Cons.prems(1), of xxh l]
    by (simp add: ih d selfParsed_def)
qed

lemma validateEdit_self:
  assumes "1 \<le> i" and "i \<le> length flines" and "flines ! (i - 1) = l"
  shows "validateEdit xxh flines (selfParsed xxh (i, l)) = Inr (selfParsed xxh (i, l), [])"
  using assms computeLineHash_lowerHex[of xxh l]
  by (simp add: validateEdit_def validateOrRelocateRef_def selfParsed_def toLowerCase_lowerHex Let_def)

lemma validateAll_all_accepted:
  "\<forall>p \<in> set ps. validateEdit xxh flines p = Inr (p, []) \<Longrightarrow> validateAll xxh flines ps = Inr (ps, [])"
  by (induction ps) simp_all

lemma in_enumerate_lines:
  "(i, l) \<in> set (enumerate 1 flines) \<Longrightarrow> 1 \<le> i \<and> i \<le> length flines \<and> flines ! (i - 1) = l"
  by (auto simp: in_set_enumerate_eq)

lemma validateAll_self:
  "validateAll xxh flines (map (selfParsed xxh) (enumerate 1 flines))
     = Inr (map (selfParsed xxh) (enumerate 1 flines), [])"
proof (rule validateAll_all_accepted, rule ballI)
  fix p assume "p \<in> set (map (selfParsed xxh) (enumerate 1 flines))"
  then obtain i l where il: "(i, l) \<in> set (enumerate 1 flines)" and p: "p = selfParsed xxh (i, l)"
    by auto
  from in_enumerate_lines[OF il] show "validateEdit xxh flines p = Inr (p, [])"
    unfolding p by (intro validateEdit_self) simp_all
qed


subsection \<open>No edit of the round trip is dropped as a duplicate\<close>

lemma dstKey_self:
  "dstKey (selfParsed xxh (i, l)) = js ''s:'' @ showNat i @ [0x7C] @ l"
  by (simp add: dstKey_def lineKey_def selfParsed_def joinLF_def js_def)

lemma takeWhile_digits_showNat: "takeWhile isDigit (showNat i @ [0x7C] @ l) = showNat i"
proof -
  have "\<not> isDigit 0x7C" by (simp add: isDigit_def)
  then show ?thesis using showNat_digits[of i] by (simp add: list_all_iff takeWhile_append2)
qed

lemma dstKey_self_inj:
  assumes "dstKey (selfParsed xxh (i, l)) = dstKey (selfParsed xxh (j, l'))"
  shows "i = j"
proof -
  from assms have "showNat i @ [0x7C] @ l = showNat j @ [0x7C] @ l'"
    unfolding dstKey_self by simp
  then have "takeWhile isDigit (showNat i @ [0x7C] @ l) = takeWhile isDigit (showNat j @ [0x7C] @ l')"
    by simp
  then show ?thesis unfolding takeWhile_digits_showNat by (rule showNat_inj)
qed

lemma distinct_keys_self:
  "distinct (map dstKey (map (selfParsed xxh) (enumerate n ls)))"
proof -
  have d: "distinct (enumerate n ls)"
    using distinct_enumerate by blast
  have "inj_on (\<lambda>x. dstKey (selfParsed xxh x)) (set (enumerate n ls))"
  proof (rule inj_onI)
    fix x y assume x: "x \<in> set (enumerate n ls)" and y: "y \<in> set (enumerate n ls)"
      and e: "dstKey (selfParsed xxh x) = dstKey (selfParsed xxh y)"
    obtain i l where xi: "x = (i, l)" by (cases x)
    obtain j l' where yj: "y = (j, l')" by (cases y)
    from e have ij: "i = j" unfolding xi yj by (rule dstKey_self_inj)
    from x y show "x = y" unfolding xi yj ij by (auto simp: in_set_enumerate_eq)
  qed
  then show ?thesis using d by (simp add: distinct_map comp_def)
qed

lemma dedupe_distinct:
  "distinct (map dstKey ps) \<Longrightarrow> dstKey ` set ps \<inter> S = {} \<Longrightarrow> dedupe S ps = ps"
proof (induction ps arbitrary: S)
  case Nil then show ?case by simp
next
  case (Cons p ps)
  have a: "dstKey p \<notin> S" using Cons.prems(2) by auto
  have b: "dstKey ` set ps \<inter> insert (dstKey p) S = {}" using Cons.prems by auto
  show ?case using a Cons.IH[OF _ b] Cons.prems(1) by simp
qed

lemma dedupe_self: "dedupe {} (map (selfParsed xxh) (enumerate n ls)) = map (selfParsed xxh) (enumerate n ls)"
  by (rule dedupe_distinct[OF distinct_keys_self]) simp

subsection \<open>The round trip is applied from the last line to the first\<close>

lemma zip_indices_self:
  "zip (map f (enumerate (Suc k) ls)) [k..<k + length ls]
     = map (\<lambda>(i, l). (f (i, l), i - 1)) (enumerate (Suc k) ls)"
proof (induction ls arbitrary: k)
  case Nil then show ?case by simp
next
  case (Cons l ls)
  have "k < k + length (l # ls)" by simp
  from upt_conv_Cons[OF this]
  have u: "[k..<k + length (l # ls)] = k # [Suc k..<Suc k + length ls]" by simp
  show ?case unfolding u using Cons.IH[of "Suc k"] by simp
qed

lemma insertEdit_front:
  "\<forall>b \<in> set acc. sortLine b < sortLine a \<Longrightarrow> insertEdit a acc = a # acc"
  by (cases acc) (simp_all add: editBefore_def)

lemma foldl_insertEdit_ascending:
  "\<forall>b \<in> set acc. sortLine b < n \<Longrightarrow> \<forall>x \<in> set (enumerate n ls). sortLine (g x) = fst x
     \<Longrightarrow> foldl (\<lambda>acc a. insertEdit a acc) acc (map g (enumerate n ls))
           = rev (map g (enumerate n ls)) @ acc"
proof (induction ls arbitrary: n acc)
  case Nil then show ?case by simp
next
  case (Cons l ls)
  have sl: "sortLine (g (n, l)) = n" using Cons.prems(2) by simp
  have i: "insertEdit (g (n, l)) acc = g (n, l) # acc"
    using Cons.prems(1) by (intro insertEdit_front) (simp add: sl)
  have a: "\<forall>b \<in> set (g (n, l) # acc). sortLine b < Suc n"
    using Cons.prems(1) sl by auto
  have b: "\<forall>x \<in> set (enumerate (Suc n) ls). sortLine (g x) = fst x"
    using Cons.prems(2) by simp
  show ?case using Cons.IH[OF a b] i by simp
qed

lemma sortEdits_self:
  "sortEdits (map (\<lambda>(p, i). annotate p i)
                (zip (map (selfParsed xxh) (enumerate 1 ls)) [0..<length ls]))
     = rev (map (\<lambda>(i, l). annotate (selfParsed xxh (i, l)) (i - 1)) (enumerate 1 ls))"
proof -
  have z: "zip (map (selfParsed xxh) (enumerate 1 ls)) [0..<length ls]
             = map (\<lambda>(i, l). (selfParsed xxh (i, l), i - 1)) (enumerate 1 ls)"
    using zip_indices_self[of "selfParsed xxh" 0 ls] unfolding One_nat_def add_0 .
  have m: "map (\<lambda>(p, i). annotate p i) (map (\<lambda>(i, l). (selfParsed xxh (i, l), i - 1)) (enumerate 1 ls))
             = map (\<lambda>(i, l). annotate (selfParsed xxh (i, l)) (i - 1)) (enumerate 1 ls)"
    by (simp add: case_prod_beta)
  have s: "\<forall>x \<in> set (enumerate 1 ls).
             sortLine ((\<lambda>(i, l). annotate (selfParsed xxh (i, l)) (i - 1)) x) = fst x"
    by (auto simp: annotate_def selfParsed_def)
  show ?thesis
    unfolding z m sortEdits_def
    using foldl_insertEdit_ascending[of "[]" 1 ls, OF _ s] by simp
qed


subsection \<open>Every edit of the round trip is a no-op\<close>

lemma touched_self:
  "collectExplicitlyTouchedLines (map (selfParsed xxh) (enumerate 1 flines)) = {1..length flines}"
proof -
  have sp: "(case spec (selfParsed xxh x) of
               Single ref \<Rightarrow> {line ref}
             | ParsedRefs.Range s e \<Rightarrow> {line s..line e}
             | InsertAfter after \<Rightarrow> {line after}) = {fst x}" for x
    by (simp add: selfParsed_def case_prod_beta)
  have "collectExplicitlyTouchedLines (map (selfParsed xxh) (enumerate 1 flines))
          = (\<Union>x \<in> set (enumerate 1 flines). {fst x})"
    unfolding collectExplicitlyTouchedLines_def set_map image_image sp ..
  also have "\<dots> = set (map fst (enumerate 1 flines))" by (simp only: set_map) blast
  also have "\<dots> = {1..length flines}"
    unfolding map_fst_enumerate by auto
  finally show ?thesis .
qed

lemma merge_none_all_touched:
  assumes "1 \<le> i" and "i \<le> length flines"
  shows "maybeExpandSingleLineMerge flines {1..length flines} i dst = None"
proof -
  have n: "(i < length flines \<and> i + 1 \<notin> {1..length flines}) = False" by auto
  have p: "(2 \<le> i \<and> i - 1 \<notin> {1..length flines}) = False" using assms(2) by auto
  show ?thesis
    unfolding maybeExpandSingleLineMerge_def Let_def n p
    by simp
qed


lemma restoreLeadingIndent_self: "restoreLeadingIndent l l = l"
  by (simp add: restoreLeadingIndent_def Let_def)

lemma resolveReplacement_self:
  assumes "1 \<le> i" and "i \<le> length flines" and "flines ! (i - 1) = l" and "plainLine l"
  shows "resolveReplacement flines i i (if l = [] then [] else [l]) = (if l = [] then [] else [l])"
proof -
  let ?d = "if l = [] then [] else [l]"
  have sl: "slice flines (i - 1) i = [l]" using slice_one[OF assms(1,2)] assms(3) by simp
  have a: "stripRangeBoundaryEcho flines i i ?d = ?d"
    by (simp add: stripRangeBoundaryEcho_def)
  have b: "restoreOldWrappedLines [l] ?d = ?d"
    by (simp add: restoreOldWrappedLines_def)
  have c: "restoreIndentForPairedReplacement [l] ?d = ?d"
    by (simp add: restoreIndentForPairedReplacement_def restoreLeadingIndent_self Let_def)
  have d: "hyphenFallback [l] ?d = ?d"
    using assms(4) by (simp add: hyphenFallback_def plainLine_def)
  show ?thesis unfolding resolveReplacement_def Let_def sl a b c d ..
qed

lemma applyEdit_self:
  assumes "(i, l) \<in> set (enumerate 1 flines)" and "plainLine l" and "fileLines st = flines"
  shows "applyEdit flines {1..length flines} st (annotate (selfParsed xxh (i, l)) (i - 1))
           = st\<lparr>noopEdits := noopEdits st @ [selfNoop xxh (i, l)]\<rparr>"
proof -
  from in_enumerate_lines[OF assms(1)]
  have rg: "1 \<le> i" "i \<le> length flines" and l: "flines ! (i - 1) = l" by simp_all
  let ?d = "if l = [] then [] else [l]"
  have sp: "spec (annotate (selfParsed xxh (i, l)) (i - 1))
              = Single \<lparr>line = i, hash = computeLineHash xxh l\<rparr>"
    by (simp add: selfParsed_def)
  have ds: "dstLines (annotate (selfParsed xxh (i, l)) (i - 1)) = ?d"
    by (simp add: selfParsed_def)
  have mg: "maybeExpandSingleLineMerge flines {1..length flines} i ?d = None"
    by (rule merge_none_all_touched[OF rg])
  have rr: "resolveReplacement flines i i ?d = ?d"
    by (rule resolveReplacement_self[OF rg l assms(2)])
  have sl: "slice flines (i - 1) i = [l]" using slice_one[OF rg] l by simp
  have j: "joinLF [l] = joinLF ?d" by (simp add: joinLF_def)
  have j1: "joinLF [l] = l" by (simp add: joinLF_def)
  show ?thesis
  proof (cases "l = []")
    case True
    show ?thesis
      unfolding applyEdit_def sp ds assms(3) Let_def
      using mg rr sl j j1 True
      by (simp add: recordNoop_def refLoc_def selfNoop_def)
  next
    case False
    show ?thesis
      unfolding applyEdit_def sp ds assms(3) Let_def
      using mg rr sl j j1 False
      by (simp add: recordNoop_def refLoc_def selfNoop_def)
  qed
qed

lemma foldl_applyEdit_self:
  assumes "set xs \<subseteq> set (enumerate 1 flines)" and "\<forall>l \<in> set flines. plainLine l"
    and "fileLines st = flines"
  shows "foldl (applyEdit flines {1..length flines}) st
           (map (\<lambda>(i, l). annotate (selfParsed xxh (i, l)) (i - 1)) xs)
         = st\<lparr>noopEdits := noopEdits st @ map (selfNoop xxh) xs\<rparr>"
  using assms(1,3)
proof (induction xs arbitrary: st)
  case Nil then show ?case by simp
next
  case (Cons x xs)
  obtain i l where x: "x = (i, l)" by (cases x)
  have m: "(i, l) \<in> set (enumerate 1 flines)" using Cons.prems(1) x by simp
  have pl: "plainLine l" using in_enumerate_lines[OF m] assms(2) by (metis nth_mem One_nat_def Suc_pred less_eq_Suc_le)
  have st: "applyEdit flines {1..length flines} st (annotate (selfParsed xxh (i, l)) (i - 1))
              = st\<lparr>noopEdits := noopEdits st @ [selfNoop xxh (i, l)]\<rparr>"
    by (rule applyEdit_self[OF m pl Cons.prems(2)])
  have f: "fileLines (st\<lparr>noopEdits := noopEdits st @ [selfNoop xxh (i, l)]\<rparr>) = flines"
    using Cons.prems(2) by simp
  have s: "set xs \<subseteq> set (enumerate 1 flines)" using Cons.prems(1) by simp
  show ?case unfolding x using Cons.IH[OF s f] st by simp
qed


lemma diffLineCount_same: "diffLineCount xs xs = 0"
proof -
  have "filter (\<lambda>(a, b). a \<noteq> b) (zip xs xs) = []"
    by (auto simp: filter_empty_conv in_set_zip)
  then show ?thesis by (simp add: diffLineCount_def)
qed

lemma applyHashlineEdits_self:
  assumes "\<forall>l \<in> set (splitLF c). plainLine l"
  shows "applyHashlineEdits xxh c (selfEdits xxh c)
           = Inr \<lparr>content = c, resultFirstChangedLine = None, warnings = [],
                  resultNoopEdits = rev (map (selfNoop xxh) (enumerate 1 (splitLF c)))\<rparr>"
proof -
  let ?L = "splitLF c"
  let ?E = "enumerate 1 ?L"
  let ?P = "map (selfParsed xxh) ?E"
  let ?g = "\<lambda>(i, l). annotate (selfParsed xxh (i, l)) (i - 1)"
  let ?st = "\<lparr>fileLines = ?L, firstChangedLine = None, noopEdits = []\<rparr>"
  have len: "length (selfEdits xxh c) \<noteq> 0" by (simp add: selfEdits_def)
  have pl: "\<forall>l \<in> set ?L. plainLine l \<and> LF \<notin> set l"
    using assms splitLF_no_LF by blast
  have pe: "parseEdits (selfEdits xxh c) = Inr ?P"
    unfolding selfEdits_def by (rule parseEdits_self[OF _ pl]) simp
  have va: "validateAll xxh ?L ?P = Inr (?P, [])" by (rule validateAll_self)
  have lp: "length ?P = length ?L" by simp
  have so: "sortEdits (map (\<lambda>(p, i). annotate p i) (zip ?P [0..<length ?P])) = rev (map ?g ?E)"
    unfolding lp by (rule sortEdits_self)
  have fo: "foldl (applyEdit ?L {1..length ?L}) ?st (rev (map ?g ?E))
              = \<lparr>fileLines = ?L, firstChangedLine = None,
                 noopEdits = rev (map (selfNoop xxh) ?E)\<rparr>"
    using foldl_applyEdit_self[of "rev ?E" ?L ?st xxh] assms
    by (simp add: rev_map)
  show ?thesis
    unfolding applyHashlineEdits_def Let_def pe
    using len va touched_self[of xxh ?L] dedupe_self[of xxh 1 ?L] so fo
    by (simp add: diffLineCount_same joinLF_splitLF)
qed


lemma edit_file_self:
  assumes "c = normalizeToLF (bomText (stripBom raw))"
    and "applyHashlineEdits xxh c (selfEdits xxh c)
           = Inr \<lparr>content = c, resultFirstChangedLine = None, warnings = [], resultNoopEdits = ns\<rparr>"
  shows "edit_file xxh rt raw (selfEdits xxh c) = Some (Inl (NoChangesMade ns))"
proof -
  have nr: "\<not> isReplaceEdit e" if "e \<in> set (selfEdits xxh c)" for e
    using that by (auto simp: selfEdits_def selfEdit_def isReplaceEdit_def)
  have f1: "filter (\<lambda>e. \<not> isReplaceEdit e) (selfEdits xxh c) = selfEdits xxh c"
    using nr by (simp add: filter_id_conv)
  have f2: "filter isReplaceEdit (selfEdits xxh c) = []"
    using nr by (simp add: filter_empty_conv)
  show ?thesis
    unfolding edit_file_def Let_def f1 f2 assms(1)[symmetric] assms(2) by simp
qed

text \<open>
  Claim C5, amended. Let no line of the file start with a \<open>LINE:HASH|\<close> prefix or a
  single \<open>+\<close>, and let no line have a confusable hyphen. Then the batch that submits,
  for every line, the \<open>set_line\<close> edit with the line's own number and fingerprint and
  the line itself as the new text, is parsed, passes validation with no mismatch, leaves
  the text as it is and records every edit as a no-op, from the last line to the first;
  the request ends in the error that no change was made, and the file stays as it was.
\<close>

theorem round_trip_is_noop_batch:
  assumes "c = normalizeToLF (bomText (stripBom raw))"
    and "\<forall>l \<in> set (splitLF c). plainLine l"
  shows "parseEdits (selfEdits xxh c) = Inr (map (selfParsed xxh) (enumerate 1 (splitLF c)))
       \<and> validateAll xxh (splitLF c) (map (selfParsed xxh) (enumerate 1 (splitLF c)))
           = Inr (map (selfParsed xxh) (enumerate 1 (splitLF c)), [])
       \<and> applyHashlineEdits xxh c (selfEdits xxh c)
           = Inr \<lparr>content = c, resultFirstChangedLine = None, warnings = [],
                  resultNoopEdits = rev (map (selfNoop xxh) (enumerate 1 (splitLF c)))\<rparr>
       \<and> edit_file xxh rt raw (selfEdits xxh c)
           = Some (Inl (NoChangesMade (rev (map (selfNoop xxh) (enumerate 1 (splitLF c))))))
       \<and> fileAfter raw (edit_file xxh rt raw (selfEdits xxh c)) = raw"
proof -
  have pl: "\<forall>l \<in> set (splitLF c). plainLine l \<and> LF \<notin> set l"
    using assms(2) splitLF_no_LF by blast
  have pe: "parseEdits (selfEdits xxh c) = Inr (map (selfParsed xxh) (enumerate 1 (splitLF c)))"
    unfolding selfEdits_def by (rule parseEdits_self[OF _ pl]) simp
  have ap: "applyHashlineEdits xxh c (selfEdits xxh c)
           = Inr \<lparr>content = c, resultFirstChangedLine = None, warnings = [],
                  resultNoopEdits = rev (map (selfNoop xxh) (enumerate 1 (splitLF c)))\<rparr>"
    by (rule applyHashlineEdits_self[OF assms(2)])
  have ef: "edit_file xxh rt raw (selfEdits xxh c)
           = Some (Inl (NoChangesMade (rev (map (selfNoop xxh) (enumerate 1 (splitLF c))))))"
    by (rule edit_file_self[OF assms(1) ap])
  have fa: "fileAfter raw (edit_file xxh rt raw (selfEdits xxh c)) = raw"
    unfolding ef by (simp add: fileAfter_def)
  show ?thesis by (intro conjI pe validateAll_self ap ef fa)
qed

lemma showNat_1: "showNat 1 = js ''1''"
  by (subst showNat.simps) (simp add: digitChar_def js_def)

lemma showNat_2: "showNat 2 = js ''2''"
  by (subst showNat.simps) (simp add: digitChar_def js_def)

theorem round_trip_is_noop_batch_witness:
  "list_all plainLine (splitLF (joinLF [js ''aaa'', js ''bbb'']))
   \<and> selfEdits xxHash32 (joinLF [js ''aaa'', js ''bbb'']) = [SetLineEdit (js ''1:5f'') (js ''aaa''), SetLineEdit (js ''2:67'') (js ''bbb'')]
   \<and> edit_file xxHash32 zeroScoreRuntime (joinLF [js ''aaa'', js ''bbb'']) [SetLineEdit (js ''1:5f'') (js ''aaa''), SetLineEdit (js ''2:67'') (js ''bbb'')]
       = Some (Inl (NoChangesMade
          [\<lparr>editIndex = 1, loc = js ''2:67'', currentContent = js ''bbb''\<rparr>,
           \<lparr>editIndex = 0, loc = js ''1:5f'', currentContent = js ''aaa''\<rparr>]))
   \<and> fileAfter (joinLF [js ''aaa'', js ''bbb'']) (edit_file xxHash32 zeroScoreRuntime (joinLF [js ''aaa'', js ''bbb'']) [SetLineEdit (js ''1:5f'') (js ''aaa''), SetLineEdit (js ''2:67'') (js ''bbb'')]) = (joinLF [js ''aaa'', js ''bbb''])"
proof -
  have sl: "splitLF (joinLF [js ''aaa'', js ''bbb'']) = [js ''aaa'', js ''bbb'']" by (simp add: str_defs)
  have pa: "plainLine (js ''aaa'')" "plainLine (js ''bbb'')"
    by (simp_all add: plainLine_def matchHashlinePrefix_def matchesDiffPlus_def
          isConfusableHyphen_def str_defs)
  have pl: "\<forall>l \<in> set (splitLF (joinLF [js ''aaa'', js ''bbb''])). plainLine l" unfolding sl using pa by simp
  have pl': "list_all plainLine (splitLF (joinLF [js ''aaa'', js ''bbb'']))" unfolding sl using pa by simp
  have c: "(joinLF [js ''aaa'', js ''bbb'']) = normalizeToLF (bomText (stripBom (joinLF [js ''aaa'', js ''bbb''])))"
    by (simp add: stripBom_def normalizeToLF_noCR str_defs BOM_def)
  have hs: "computeLineHash xxHash32 (js ''aaa'') = js ''5f''"
           "computeLineHash xxHash32 (js ''bbb'') = js ''67''"
    by (simp_all add: hash_defs str_defs)
  have en: "enumerate 1 [js ''aaa'', js ''bbb''] = [(1, js ''aaa''), (2, js ''bbb'')]"
    by (simp add: numeral_2_eq_2)
  have se: "selfEdits xxHash32 (joinLF [js ''aaa'', js ''bbb'']) = [SetLineEdit (js ''1:5f'') (js ''aaa''), SetLineEdit (js ''2:67'') (js ''bbb'')]"
    unfolding selfEdits_def sl en
    using showNat_1 showNat_2 by (simp add: selfEdit_def hs) (simp add: js_def)
  have ns: "rev (map (selfNoop xxHash32) (enumerate 1 (splitLF (joinLF [js ''aaa'', js ''bbb'']))))
              = [\<lparr>editIndex = 1, loc = js ''2:67'', currentContent = js ''bbb''\<rparr>,
           \<lparr>editIndex = 0, loc = js ''1:5f'', currentContent = js ''aaa''\<rparr>]"
    unfolding sl en
    using showNat_1 showNat_2 by (simp add: selfNoop_def hs) (simp add: js_def)
  note T = round_trip_is_noop_batch[where xxh = xxHash32 and rt = zeroScoreRuntime, OF c pl]
  have e: "edit_file xxHash32 zeroScoreRuntime (joinLF [js ''aaa'', js ''bbb'']) [SetLineEdit (js ''1:5f'') (js ''aaa''), SetLineEdit (js ''2:67'') (js ''bbb'')]
       = Some (Inl (NoChangesMade
          [\<lparr>editIndex = 1, loc = js ''2:67'', currentContent = js ''bbb''\<rparr>,
           \<lparr>editIndex = 0, loc = js ''1:5f'', currentContent = js ''aaa''\<rparr>]))"
    using T[THEN conjunct2, THEN conjunct2, THEN conjunct2, THEN conjunct1]
    unfolding se ns .
  have f: "fileAfter (joinLF [js ''aaa'', js ''bbb'']) (edit_file xxHash32 zeroScoreRuntime (joinLF [js ''aaa'', js ''bbb'']) [SetLineEdit (js ''1:5f'') (js ''aaa''), SetLineEdit (js ''2:67'') (js ''bbb'')]) = (joinLF [js ''aaa'', js ''bbb''])"
    using T[THEN conjunct2, THEN conjunct2, THEN conjunct2, THEN conjunct2]
    unfolding se .
  show ?thesis by (intro conjI pl' se e f)
qed

subsection \<open>A line that starts with a plus sign\<close>

lemma xx_plus_x: "xxHash32 [0x2B, 0x78] = 4194345579" by (simp add: xx_defs)
lemma xx_x: "xxHash32 [0x78] = 784609514" by (simp add: xx_defs)

text \<open>
  As stated, claim C5 fails on the file whose one line is \<open>+x\<close>: the plus sign of the
  new text is taken for a diff marker and stripped, so the edit of the line to itself
  passes validation, but it is no no-op: the line becomes \<open>x\<close>, and the request
  succeeds and writes the changed text.
\<close>

theorem round_trip_plus_line_counterexample:
  "selfEdits xxHash32 (js ''+x'') = [SetLineEdit (js ''1:6b'') (js ''+x'')]
   \<and> applyHashlineEdits xxHash32 (js ''+x'') (selfEdits xxHash32 (js ''+x''))
       = Inr \<lparr>content = js ''x'', resultFirstChangedLine = Some 1, warnings = [],
              resultNoopEdits = []\<rparr>
   \<and> edit_file xxHash32 zeroScoreRuntime (js ''+x'') (selfEdits xxHash32 (js ''+x''))
       = Some (Inr (js ''x''))"
proof -
  have sl: "splitLF (js ''+x'') = [js ''+x'']" by (simp add: str_defs)
  have hs: "computeLineHash xxHash32 (js ''+x'') = js ''6b''"
    by (simp add: computeLineHash_eq hexDigit_def stripAllWhitespace_def stripTrailingCR_def
          xx_plus_x str_defs)
  have se: "selfEdits xxHash32 (js ''+x'') = [SetLineEdit (js ''1:6b'') (js ''+x'')]"
    unfolding selfEdits_def sl
    using showNat_1 by (simp add: selfEdit_def hs) (simp add: js_def)
  have pe: "parseHashlineEdit (SetLineEdit (js ''1:6b'') (js ''+x''))
              = Inr (Single \<lparr>line = 1, hash = js ''6b''\<rparr>, js ''+x'')"
    by (simp add: parse_defs str_defs)
  have dst: "stripNewLinePrefixes (splitDstLines (js ''+x'')) = [js ''x'']"
    by (simp add: parse_defs str_defs)
  have lw: "toLowerCase (js ''6b'') = js ''6b''" by (simp add: toLowerCase_def js_def)
  have ve: "validateEdit xxHash32 (splitLF (js ''+x''))
              \<lparr>spec = Single \<lparr>line = 1, hash = js ''6b''\<rparr>,
               dstLines = stripNewLinePrefixes (splitDstLines (js ''+x''))\<rparr>
            = Inr (\<lparr>spec = Single \<lparr>line = 1, hash = js ''6b''\<rparr>, dstLines = [js ''x'']\<rparr>, [])"
    unfolding sl dst
    by (simp add: validateEdit_def validateOrRelocateRef_def lw hs Let_def)
  have mg: "maybeExpandSingleLineMerge [js ''+x''] {1} 1 [js ''x''] = None"
    by (simp add: maybeExpandSingleLineMerge_def stripAllWhitespace_def
          stripTrailingContinuationTokens_def stripMergeOperatorChars_def continuationChars_def
          indexOf_def str_defs Let_def)
  have rr: "resolveReplacement [js ''+x''] 1 1 [js ''x''] = [js ''x'']"
    by (simp add: resolveReplacement_def slice_def stripRangeBoundaryEcho_def
          restoreOldWrappedLines_def restoreIndentForPairedReplacement_def restoreLeadingIndent_def
          leadingWhitespace_def hyphenFallback_def str_defs Let_def)
  have ap: "applyEdit [js ''+x'']
              (collectExplicitlyTouchedLines
                 [\<lparr>spec = Single \<lparr>line = 1, hash = js ''6b''\<rparr>, dstLines = [js ''x'']\<rparr>])
              \<lparr>fileLines = [js ''+x''], firstChangedLine = None, noopEdits = []\<rparr>
              (annotate \<lparr>spec = Single \<lparr>line = 1, hash = js ''6b''\<rparr>, dstLines = [js ''x'']\<rparr> 0)
            = \<lparr>fileLines = [js ''x''], firstChangedLine = Some 1, noopEdits = []\<rparr>"
    using mg rr
    by (simp add: applyEdit_def collectExplicitlyTouchedLines_def slice_def splice_def
          trackFirstChanged_def Let_def) (simp add: str_defs)
  have r: "applyHashlineEdits xxHash32 (js ''+x'') [SetLineEdit (js ''1:6b'') (js ''+x'')]
       = Inr \<lparr>content = js ''x'', resultFirstChangedLine = Some 1, warnings = [],
              resultNoopEdits = []\<rparr>"
    using applyHashlineEdits_single[OF pe ve]
    unfolding sl ap
    by (simp add: singleResult_def diffLineCount_def joinLF_def)
  have c: "normalizeToLF (bomText (stripBom (js ''+x''))) = js ''+x''"
    by (simp add: stripBom_def normalizeToLF_noCR str_defs BOM_def)
  have de: "detectLineEnding (js ''+x'') = LFOnly"
    by (simp add: detectLineEnding_noCR str_defs)
  have e: "edit_file xxHash32 zeroScoreRuntime (js ''+x'') [SetLineEdit (js ''1:6b'') (js ''+x'')]
       = Some (Inr (js ''x''))"
    unfolding edit_file_def Let_def c
    using r de
    by (simp add: isReplaceEdit_def stripBom_def restoreLineEndings_def)
       (simp add: str_defs BOM_def)
  show ?thesis unfolding se by (intro conjI refl r e)
qed

end
